theory Spec2Isabelle
  imports Main "HOL-Library.AList" "HOL-Library.List_Lexorder" "HOL-Library.Multiset"
begin

section \<open>Strings\<close>

text \<open>
  A JavaScript string is a sequence of UTF-16 code units. A code unit is a natural number
  below 65536; \<open>js\<close> writes an ASCII literal as its code units.
\<close>

type_synonym jsstring = "nat list"

definition js :: "string \<Rightarrow> jsstring" where
  "js s = map of_char s"

definition is_ascii :: "jsstring \<Rightarrow> bool" where
  "is_ascii s = list_all (\<lambda>c. c < 128) s"

text \<open>The character classes of the regular expressions (no \<open>u\<close> or \<open>i\<close> flag).\<close>

definition is_digit :: "nat \<Rightarrow> bool" where
  "is_digit c = (48 \<le> c \<and> c \<le> 57)"

definition is_lower :: "nat \<Rightarrow> bool" where
  "is_lower c = (97 \<le> c \<and> c \<le> 122)"

definition is_upper :: "nat \<Rightarrow> bool" where
  "is_upper c = (65 \<le> c \<and> c \<le> 90)"

definition is_word :: "nat \<Rightarrow> bool" where
  \<comment> \<open>\<open>\w\<close> is \<open>[A-Za-z0-9_]\<close>\<close>
  "is_word c = (is_upper c \<or> is_lower c \<or> is_digit c \<or> c = 95)"

definition is_space :: "nat \<Rightarrow> bool" where
  \<comment> \<open>\<open>\s\<close>: WhiteSpace and LineTerminator of ECMAScript; \<open>trim\<close> strips the same set\<close>
  "is_space c = (c \<in> set [9, 10, 11, 12, 13, 32, 160, 5760, 8232, 8233, 8239, 8287, 12288, 65279]
                 \<or> (8192 \<le> c \<and> c \<le> 8202))"

definition HYPHEN :: nat where
  "HYPHEN = 45"

section \<open>Runtime library functions used by the slug generator\<close>

text \<open>
  \<open>String.prototype.toLowerCase\<close> and \<open>String.prototype.normalize('NFKD')\<close> read the
  Unicode tables of the JavaScript runtime. They are written out here for the ASCII code
  units, where lower-casing moves \<open>A-Z\<close> to \<open>a-z\<close> and NFKD changes nothing, and for the
  code unit U+210C (BLACK-LETTER CAPITAL H), which has no lower-case mapping and whose
  compatibility decomposition is the letter \<open>H\<close>. Results that depend on these two
  functions are stated for strings of those code units only.
\<close>

definition toLowerCase_unit :: "nat \<Rightarrow> nat" where
  "toLowerCase_unit c = (if is_upper c then c + 32 else c)"

definition toLowerCase :: "jsstring \<Rightarrow> jsstring" where
  "toLowerCase s = map toLowerCase_unit s"

definition nfkd_unit :: "nat \<Rightarrow> jsstring" where
  "nfkd_unit c = (if c = 8460 then [72] else [c])"

definition normalize_NFKD :: "jsstring \<Rightarrow> jsstring" where
  "normalize_NFKD s = concat (map nfkd_unit s)"

text \<open>
  \<open>path.parse(p).name\<close> of Node's POSIX \<open>path\<close> module: one scan of the path from its
  end, which finds the last path component (\<open>startPart\<close> to \<open>end\<close>, trailing slashes
  dropped) and its last dot (\<open>startDot\<close>); \<open>-1\<close> stands for "not seen yet" as in the
  library. The first argument of \<open>parse_scan\<close> after the bounds is \<open>i + 1\<close> for the
  loop variable \<open>i\<close>, which runs down to \<open>start\<close>.
\<close>

record scan =
  startDot :: int
  startPart :: nat
  end_pos :: int
  matchedSlash :: bool
  preDotState :: int

definition slice :: "jsstring \<Rightarrow> nat \<Rightarrow> nat \<Rightarrow> jsstring" where
  "slice s a b = take (b - a) (drop a s)"

definition mark_end :: "nat \<Rightarrow> scan \<Rightarrow> scan" where
  \<comment> \<open>the first character that is no separator ends the last component\<close>
  "mark_end i st =
     (if end_pos st = -1 then st\<lparr>end_pos := int i + 1, matchedSlash := False\<rparr> else st)"

definition mark_dot :: "nat \<Rightarrow> nat \<Rightarrow> scan \<Rightarrow> scan" where
  "mark_dot code i st =
     (if code = 46 then
        (if startDot st = -1 then st\<lparr>startDot := int i\<rparr>
         else if preDotState st \<noteq> 1 then st\<lparr>preDotState := 1\<rparr>
         else st)
      else if startDot st \<noteq> -1 then st\<lparr>preDotState := -1\<rparr>
      else st)"

fun parse_scan :: "jsstring \<Rightarrow> nat \<Rightarrow> nat \<Rightarrow> scan \<Rightarrow> scan" where
  "parse_scan path start 0 st = st"
| "parse_scan path start (Suc i) st =
     (if i < start then st
      else if path ! i = 47 then
        (if \<not> matchedSlash st then st\<lparr>startPart := i + 1\<rparr>
         else parse_scan path start i st)
      else parse_scan path start i (mark_dot (path ! i) i (mark_end i st)))"

definition name_of_scan :: "jsstring \<Rightarrow> bool \<Rightarrow> scan \<Rightarrow> jsstring" where
  "name_of_scan path isAbsolute st =
     (if end_pos st = -1 then []
      else if startDot st = -1 \<or> preDotState st = 0
              \<or> (preDotState st = 1 \<and> startDot st = end_pos st - 1
                  \<and> startDot st = int (startPart st) + 1)
      then slice path (if startPart st = 0 \<and> isAbsolute then 1 else startPart st)
             (nat (end_pos st))
      else slice path (if startPart st = 0 \<and> isAbsolute then 1 else startPart st)
             (nat (startDot st)))"

definition path_parse_name :: "jsstring \<Rightarrow> jsstring" where
  "path_parse_name path =
     (if path = [] then []
      else name_of_scan path (path ! 0 = 47)
             (parse_scan path (if path ! 0 = 47 then 1 else 0) (length path)
                \<lparr>startDot = -1, startPart = 0, end_pos = -1, matchedSlash = True,
                 preDotState = 0\<rparr>))"

section \<open>Slug generator\<close>

text \<open>\<open>.replace(/[^\w\s-]/g, '')\<close>\<close>

definition remove_special :: "jsstring \<Rightarrow> jsstring" where
  "remove_special s = filter (\<lambda>c. is_word c \<or> is_space c \<or> c = HYPHEN) s"

text \<open>\<open>.trim()\<close>\<close>

definition trim :: "jsstring \<Rightarrow> jsstring" where
  "trim s = rev (dropWhile is_space (rev (dropWhile is_space s)))"

text \<open>
  \<open>.replace(/\s+/g, '-')\<close> and \<open>.replace(/-+/g, '-')\<close>: every maximal run of
  characters of the class becomes one hyphen.
\<close>

function replace_runs :: "(nat \<Rightarrow> bool) \<Rightarrow> jsstring \<Rightarrow> jsstring" where
  "replace_runs p [] = []"
| "replace_runs p (c # cs) =
     (if p c then HYPHEN # replace_runs p (dropWhile p cs) else c # replace_runs p cs)"
  by pat_completeness auto
termination
  by (relation "measure (\<lambda>(p, s). length s)") (auto simp: length_dropWhile_le less_Suc_eq_le)

text \<open>
  \<open>.replace(/^-|-$/g, '')\<close>: a hyphen at the start is removed, then a hyphen at the end
  of what follows it.
\<close>

definition strip_trailing_hyphen :: "jsstring \<Rightarrow> jsstring" where
  "strip_trailing_hyphen s = (if s \<noteq> [] \<and> last s = HYPHEN then butlast s else s)"

definition strip_edge_hyphens :: "jsstring \<Rightarrow> jsstring" where
  "strip_edge_hyphens s =
     strip_trailing_hyphen (case s of [] \<Rightarrow> [] | c # cs \<Rightarrow> if c = HYPHEN then cs else s)"

definition slugify :: "jsstring \<Rightarrow> jsstring" where
  \<comment> \<open>the chain from \<open>.replace(/[^\w\s-]/g, '')\<close> to \<open>.replace(/^-|-$/g, '')\<close>\<close>
  "slugify x =
     strip_edge_hyphens
       (replace_runs (\<lambda>c. c = HYPHEN) (replace_runs is_space (trim (remove_special x))))"

definition generateSafeFilename :: "jsstring \<Rightarrow> jsstring" where
  "generateSafeFilename originalFilename =
     slugify (normalize_NFKD (toLowerCase (path_parse_name originalFilename))) @ js ''.mdx''"

text \<open>
  The patterns the slug is measured against: \<open>matches_pattern cls\<close> is
  \<open>^[cls]*\.mdx$\<close>, \<open>stripExtension\<close> takes the fixed extension off a generated name,
  and \<open>no_edge_hyphen\<close> says that a slug neither starts nor ends with a hyphen.
\<close>

definition stripExtension :: "jsstring \<Rightarrow> jsstring" where
  "stripExtension out = take (length out - 4) out"

definition matches_pattern :: "(nat \<Rightarrow> bool) \<Rightarrow> jsstring \<Rightarrow> bool" where
  "matches_pattern cls out =
     (4 \<le> length out \<and> drop (length out - 4) out = js ''.mdx''
      \<and> list_all cls (stripExtension out))"

definition claimed_unit :: "nat \<Rightarrow> bool" where
  \<comment> \<open>\<open>[a-z0-9-]\<close>\<close>
  "claimed_unit c = (is_lower c \<or> is_digit c \<or> c = HYPHEN)"

definition slug_unit :: "nat \<Rightarrow> bool" where
  \<comment> \<open>\<open>[A-Za-z0-9_-]\<close>\<close>
  "slug_unit c = (is_word c \<or> c = HYPHEN)"

definition lower_slug_unit :: "nat \<Rightarrow> bool" where
  \<comment> \<open>\<open>[a-z0-9_-]\<close>\<close>
  "lower_slug_unit c = (is_lower c \<or> is_digit c \<or> c = 95 \<or> c = HYPHEN)"

definition no_edge_hyphen :: "jsstring \<Rightarrow> bool" where
  "no_edge_hyphen s = (case s of [] \<Rightarrow> True | c # cs \<Rightarrow> c \<noteq> HYPHEN \<and> last s \<noteq> HYPHEN)"

text \<open>No two hyphens in a row.\<close>

definition no_double :: "jsstring \<Rightarrow> bool" where
  "no_double s = successively (\<lambda>a b. \<not> (a = HYPHEN \<and> b = HYPHEN)) s"

section \<open>Data model and external collaborators\<close>

text \<open>The file records of the pending-files API and the per-item result of \<open>processFile\<close>.\<close>

record pending_file =
  file_id :: jsstring
  originalFilename :: jsstring
  secureUrl :: jsstring
  status :: jsstring

record outcome =
  success :: bool
  name :: jsstring
  error :: "jsstring option"

text \<open>A thrown value: its \<open>message\<close> and, for an HTTP error, \<open>response.status\<close>.\<close>

record js_error =
  message :: jsstring
  response_status :: "nat option"

definition Error :: "string \<Rightarrow> js_error" where
  "Error msg = \<lparr>message = js msg, response_status = None\<rparr>"

text \<open>The \<open>data\<close> of an HTTP response: a string, an array of file records, or anything else.\<close>

datatype payload = PString jsstring | PFiles "pending_file list" | POther

text \<open>
  What the file-system driver makes of a write. \<open>fs.writeFileSync\<close> opens the file with
  flag \<open>w\<close>, which creates or truncates it, and then writes the data. A failure before
  the file is open leaves the directory as it was (\<open>None\<close>); a failure after that leaves
  the file with whatever had been written (\<open>Some\<close> of that content, possibly empty).
\<close>

datatype write_result = Written | WriteFailed js_error "jsstring option"

record gen_request =
  req_apiKey :: "jsstring option"
  req_model :: jsstring
  req_contents :: jsstring

record put_body =
  put_status :: jsstring
  completedTimestamp :: nat

record mail =
  mail_from :: "jsstring option"
  mail_to :: "jsstring option"
  mail_subject :: jsstring
  mail_text :: jsstring

text \<open>
  Everything outside the program: the environment variables, the remote services, the
  file-system driver, the SMTP transport and the clock. A service answers its \<open>n\<close>-th
  request (counted from 0) with an error or a result; \<open>None\<close> for an action without a
  result means that it went through.
\<close>

record externals =
  process_env :: "(jsstring \<times> jsstring) list"
  http_get :: "nat \<Rightarrow> jsstring \<Rightarrow> js_error + payload"
  generateContent :: "nat \<Rightarrow> gen_request \<Rightarrow> js_error + jsstring option"
  writeFile :: "nat \<Rightarrow> jsstring \<Rightarrow> jsstring \<Rightarrow> write_result"
  http_put :: "nat \<Rightarrow> jsstring \<Rightarrow> put_body \<Rightarrow> js_error option"
  sendMail :: "nat \<Rightarrow> mail \<Rightarrow> js_error option"
  date_now :: "nat \<Rightarrow> nat"
  dateTimeStr :: jsstring
  JSON_stringify :: "payload \<Rightarrow> jsstring"

text \<open>The lines written to the console, one constructor for each call in the source.\<close>

datatype log_line =
    LoadedKeys nat
  | Starting
  | NoPendingFiles
  | FoundFiles nat
  | Processing jsstring
  | Retry nat nat
  | RateLimitHit
  | Done jsstring
  | Failed jsstring jsstring
  | BatchCompleted
  | FatalError jsstring

text \<open>
  The mutable state: the output directory \<open>generated-content\<close> with its files (name and
  content), the rotation cursor \<open>keyIndex\<close>, and a log of every request sent to a
  collaborator, of every delay waited and of the console.
\<close>

record world =
  dir_exists :: bool
  dir_files :: "(jsstring \<times> jsstring) list"
  keyIndex :: nat
  get_log :: "jsstring list"
  gen_log :: "gen_request list"
  write_log :: "(jsstring \<times> jsstring) list"
  put_log :: "(jsstring \<times> put_body) list"
  mail_log :: "mail list"
  slept :: "nat list"
  console :: "log_line list"

datatype process_end = ExitCode nat | Uncaught js_error

section \<open>Configuration\<close>

definition EXTERNAL_API_BASE :: jsstring where
  "EXTERNAL_API_BASE = js ''https://cloud-text-manager-server.vercel.app''"

definition EXTERNAL_API_URL :: jsstring where
  "EXTERNAL_API_URL = EXTERNAL_API_BASE @ js ''/api/files''"

definition BATCH_SIZE :: nat where "BATCH_SIZE = 20"
definition CONCURRENCY_LIMIT :: nat where "CONCURRENCY_LIMIT = 3"
definition REQUEST_DELAY :: nat where "REQUEST_DELAY = 1500"
definition MAX_RETRIES :: nat where "MAX_RETRIES = 5"

text \<open>JavaScript truthiness of a string that may be \<open>undefined\<close>, \<open>a || b\<close>, \<open>xs[i]\<close>.\<close>

definition falsy :: "jsstring option \<Rightarrow> bool" where
  "falsy v = (v = None \<or> v = Some [])"

definition or_else :: "jsstring option \<Rightarrow> jsstring option \<Rightarrow> jsstring option" where
  "or_else a b = (if falsy a then b else a)"

definition at_index :: "'a list \<Rightarrow> nat \<Rightarrow> 'a option" where
  "at_index xs i = (if i < length xs then Some (xs ! i) else None)"

definition env_get :: "externals \<Rightarrow> string \<Rightarrow> jsstring option" where
  "env_get ext key = map_of (process_env ext) (js key)"

definition startsWith :: "jsstring \<Rightarrow> jsstring \<Rightarrow> bool" where
  "startsWith prefix s = (take (length prefix) s = prefix)"

definition sleep :: "nat \<Rightarrow> world \<Rightarrow> world" where
  "sleep ms w = w\<lparr>slept := slept w @ [ms]\<rparr>"

definition console_log :: "log_line \<Rightarrow> world \<Rightarrow> world" where
  "console_log l w = w\<lparr>console := console w @ [l]\<rparr>"

section \<open>Credentials and their rotation\<close>

definition apiKeys :: "externals \<Rightarrow> jsstring list" where
  "apiKeys ext =
     map the (filter (\<lambda>v. \<not> falsy v)
       (map (\<lambda>key. map_of (process_env ext) key)
         (sort (filter (startsWith (js ''GEMINI_API_KEY'')) (map fst (process_env ext))))))"

definition getNextGemini :: "externals \<Rightarrow> world \<Rightarrow> jsstring option \<times> world" where
  "getNextGemini ext w =
     (at_index (apiKeys ext) (keyIndex w),
      w\<lparr>keyIndex := (keyIndex w + 1) mod length (apiKeys ext)\<rparr>)"

section \<open>Generation with retry and key rotation\<close>

definition call_generateContent ::
  "externals \<Rightarrow> jsstring option \<Rightarrow> jsstring \<Rightarrow> jsstring \<Rightarrow> world
     \<Rightarrow> (js_error + jsstring option) \<times> world" where
  "call_generateContent ext ai model promptText w =
     (generateContent ext (length (gen_log w))
        \<lparr>req_apiKey = ai, req_model = model, req_contents = promptText\<rparr>,
      w\<lparr>gen_log := gen_log w
             @ [\<lparr>req_apiKey = ai, req_model = model, req_contents = promptText\<rparr>]\<rparr>)"

text \<open>
  The body of the \<open>try\<close> block of one attempt: the next client, the fixed delay, the
  call, and \<open>Empty response\<close> thrown for a result without text.
\<close>

definition attempt_once ::
  "externals \<Rightarrow> jsstring \<Rightarrow> jsstring \<Rightarrow> world \<Rightarrow> (js_error + jsstring) \<times> world" where
  "attempt_once ext promptText model w =
     (case getNextGemini ext w of
        (ai, w1) \<Rightarrow>
          (case call_generateContent ext ai model promptText (sleep REQUEST_DELAY w1) of
             (Inl e, w2) \<Rightarrow> (Inl e, w2)
           | (Inr text, w2) \<Rightarrow>
               (if falsy text then (Inl (Error ''Empty response''), w2)
                else (Inr (the text), w2))))"

text \<open>
  The \<open>catch\<close> block up to its last line, with \<open>attempt\<close> already incremented: the
  retry line, the note on a rate limit, the back-off delay.
\<close>

definition after_failure :: "nat \<Rightarrow> js_error \<Rightarrow> world \<Rightarrow> world" where
  "after_failure attempt e w =
     sleep (1000 * attempt)
       ((if response_status e = Some 429 then console_log RateLimitHit else id)
          (console_log (Retry attempt MAX_RETRIES) w))"

text \<open>
  The \<open>while\<close> loop from a given value of \<open>attempt\<close>. The result is the thrown error or
  the returned value, which is \<open>undefined\<close> (\<open>None\<close>) when the loop ends without a
  \<open>return\<close>.
\<close>

function generateWithRetry_loop ::
  "externals \<Rightarrow> jsstring \<Rightarrow> jsstring \<Rightarrow> nat \<Rightarrow> world
     \<Rightarrow> (js_error + jsstring option) \<times> world" where
  "generateWithRetry_loop ext promptText model attempt w =
     (if attempt < MAX_RETRIES then
        (case attempt_once ext promptText model w of
           (Inr text, w') \<Rightarrow> (Inr (Some text), w')
         | (Inl e, w') \<Rightarrow>
             (if attempt + 1 \<ge> MAX_RETRIES then (Inl e, after_failure (attempt + 1) e w')
              else generateWithRetry_loop ext promptText model (attempt + 1)
                     (after_failure (attempt + 1) e w')))
      else (Inr None, w))"
  by pat_completeness auto
termination
  by (relation "measure (\<lambda>(ext, promptText, model, attempt, w). MAX_RETRIES - attempt)") auto

definition generateWithRetry ::
  "externals \<Rightarrow> jsstring \<Rightarrow> jsstring \<Rightarrow> world \<Rightarrow> (js_error + jsstring option) \<times> world" where
  "generateWithRetry ext promptText model w = generateWithRetry_loop ext promptText model 0 w"

section \<open>Processing one file\<close>

definition axios_get :: "externals \<Rightarrow> jsstring \<Rightarrow> world \<Rightarrow> (js_error + payload) \<times> world" where
  "axios_get ext url w = (http_get ext (length (get_log w)) url, w\<lparr>get_log := get_log w @ [url]\<rparr>)"

definition axios_put ::
  "externals \<Rightarrow> jsstring \<Rightarrow> put_body \<Rightarrow> world \<Rightarrow> js_error option \<times> world" where
  "axios_put ext url body w =
     (http_put ext (length (put_log w)) url body, w\<lparr>put_log := put_log w @ [(url, body)]\<rparr>)"

text \<open>
  \<open>fs.writeFileSync(path.join(GENERATED_DIR, safeFilename), data, 'utf-8')\<close>: data that is
  \<open>undefined\<close> is refused with a type error before the file is touched; otherwise the
  driver decides. A write that goes through creates or replaces the file of that name; a
  write that fails leaves what \<open>write_result\<close> says.
\<close>

definition after_failed_write ::
  "jsstring \<Rightarrow> jsstring option \<Rightarrow> (jsstring \<times> jsstring) list \<Rightarrow> (jsstring \<times> jsstring) list" where
  "after_failed_write fileName left files =
     (case left of None \<Rightarrow> files | Some partial \<Rightarrow> AList.update fileName partial files)"

definition writeFileSync ::
  "externals \<Rightarrow> jsstring \<Rightarrow> jsstring option \<Rightarrow> world \<Rightarrow> js_error option \<times> world" where
  "writeFileSync ext fileName data w =
     (case data of
        None \<Rightarrow> (Some (Error ''The data argument must be of type string''), w)
      | Some content \<Rightarrow>
          (case writeFile ext (length (write_log w)) fileName content of
             WriteFailed e left \<Rightarrow>
               (Some e, w\<lparr>write_log := write_log w @ [(fileName, content)],
                           dir_files := after_failed_write fileName left (dir_files w)\<rparr>)
           | Written \<Rightarrow>
               (None, w\<lparr>write_log := write_log w @ [(fileName, content)],
                         dir_files := AList.update fileName content (dir_files w)\<rparr>)))"

definition promptText_of :: "externals \<Rightarrow> payload \<Rightarrow> jsstring" where
  "promptText_of ext d = (case d of PString s \<Rightarrow> s | _ \<Rightarrow> JSON_stringify ext d)"

text \<open>
  The \<open>try\<close> block of \<open>processFile\<close>, step by step; the first error ends it. Its result
  is the thrown error or \<open>safeFilename\<close>.
\<close>

definition report_status ::
  "externals \<Rightarrow> pending_file \<Rightarrow> jsstring \<Rightarrow> world \<Rightarrow> (js_error + jsstring) \<times> world" where
  "report_status ext file safeFilename w =
     (case axios_put ext (EXTERNAL_API_URL @ js ''/'' @ file_id file)
             \<lparr>put_status = js ''AlreadyCopy'',
              completedTimestamp = date_now ext (length (put_log w))\<rparr> w of
        (Some e, w') \<Rightarrow> (Inl e, w')
      | (None, w') \<Rightarrow> (Inr safeFilename, console_log (Done safeFilename) w'))"

definition persist_and_report ::
  "externals \<Rightarrow> pending_file \<Rightarrow> jsstring option \<Rightarrow> world \<Rightarrow> (js_error + jsstring) \<times> world" where
  "persist_and_report ext file generatedContent w =
     (case writeFileSync ext (generateSafeFilename (originalFilename file)) generatedContent w of
        (Some e, w') \<Rightarrow> (Inl e, w')
      | (None, w') \<Rightarrow> report_status ext file (generateSafeFilename (originalFilename file)) w')"

definition processFile_try ::
  "externals \<Rightarrow> pending_file \<Rightarrow> jsstring \<Rightarrow> world \<Rightarrow> (js_error + jsstring) \<times> world" where
  "processFile_try ext file model w =
     (case axios_get ext (secureUrl file) w of
        (Inl e, w1) \<Rightarrow> (Inl e, w1)
      | (Inr promptResponse, w1) \<Rightarrow>
          (case generateWithRetry ext (promptText_of ext promptResponse) model w1 of
             (Inl e, w2) \<Rightarrow> (Inl e, w2)
           | (Inr generatedContent, w2) \<Rightarrow> persist_and_report ext file generatedContent w2))"

definition processFile :: "externals \<Rightarrow> pending_file \<Rightarrow> jsstring \<Rightarrow> world \<Rightarrow> outcome \<times> world" where
  "processFile ext file model w =
     (case processFile_try ext file model (console_log (Processing (originalFilename file)) w) of
        (Inr safeFilename, w') \<Rightarrow> (\<lparr>success = True, name = safeFilename, error = None\<rparr>, w')
      | (Inl err, w') \<Rightarrow>
          (\<lparr>success = False, name = originalFilename file, error = Some (message err)\<rparr>,
           console_log (Failed (originalFilename file) (message err)) w'))"

section \<open>processFile as a task that is resumed at each await\<close>

text \<open>
  While several workers run, a call of \<open>processFile\<close> advances from one \<open>await\<close> to
  the next, and calls of other workers advance in between. A task is the point at which a
  call waits, with the local variables it needs to go on:
  \<^item> \<open>AwaitGet\<close>: \<open>await axios.get(file.secureUrl)\<close>, with the answer on its way;
  \<^item> \<open>AwaitDelay\<close>: \<open>await sleep(REQUEST_DELAY)\<close> in \<open>generateWithRetry\<close>, with
    \<open>promptText\<close>, \<open>attempt\<close> and the client \<open>ai\<close>;
  \<^item> \<open>AwaitGenerate\<close>: \<open>await ai.models.generateContent(...)\<close>, with the answer on its way;
  \<^item> \<open>AwaitBackoff\<close>: \<open>await sleep(1000 * attempt)\<close> in the \<open>catch\<close> block, with the
    incremented \<open>attempt\<close> and the error caught;
  \<^item> \<open>AwaitGenerated\<close>: \<open>await generateWithRetry(...)\<close> in \<open>processFile\<close>, with what
    \<open>generateWithRetry\<close> returned or threw;
  \<^item> \<open>AwaitPut\<close>: \<open>await axios.put(...)\<close>, with \<open>safeFilename\<close> and the answer on its way;
  \<^item> \<open>AwaitProcessed\<close>: \<open>await processFile(file, model)\<close> in the worker, with the
    outcome returned.
  A request is sent, logged and answered by its collaborator when the call reaches it; the
  answer is used when the task is resumed.
\<close>

datatype task =
    AwaitGet pending_file "js_error + payload"
  | AwaitDelay pending_file jsstring nat "jsstring option"
  | AwaitGenerate pending_file jsstring nat "js_error + jsstring option"
  | AwaitBackoff pending_file jsstring nat js_error
  | AwaitGenerated pending_file "js_error + jsstring option"
  | AwaitPut pending_file jsstring "js_error option"
  | AwaitProcessed outcome

text \<open>The \<open>catch\<close> block of \<open>processFile\<close>.\<close>

definition processFile_catch :: "pending_file \<Rightarrow> js_error \<Rightarrow> world \<Rightarrow> task \<times> world" where
  "processFile_catch file err w =
     (AwaitProcessed \<lparr>success = False, name = originalFilename file, error = Some (message err)\<rparr>,
      console_log (Failed (originalFilename file) (message err)) w)"

text \<open>\<open>processFile\<close> from its first line to its first \<open>await\<close>.\<close>

definition processFile_start :: "externals \<Rightarrow> pending_file \<Rightarrow> world \<Rightarrow> task \<times> world" where
  "processFile_start ext file w =
     (case axios_get ext (secureUrl file) (console_log (Processing (originalFilename file)) w) of
        (r, w') \<Rightarrow> (AwaitGet file r, w'))"

text \<open>
  The head of the \<open>while\<close> loop of \<open>generateWithRetry\<close> up to the first \<open>await\<close> of the
  attempt, and its \<open>catch\<close> block up to the \<open>await\<close> of the back-off.
\<close>

definition attempt_start ::
  "externals \<Rightarrow> pending_file \<Rightarrow> jsstring \<Rightarrow> nat \<Rightarrow> world \<Rightarrow> task \<times> world" where
  "attempt_start ext file promptText attempt w =
     (if attempt < MAX_RETRIES then
        (case getNextGemini ext w of
           (ai, w1) \<Rightarrow> (AwaitDelay file promptText attempt ai, sleep REQUEST_DELAY w1))
      else (AwaitGenerated file (Inr None), w))"

definition attempt_catch ::
  "pending_file \<Rightarrow> jsstring \<Rightarrow> nat \<Rightarrow> js_error \<Rightarrow> world \<Rightarrow> task \<times> world" where
  "attempt_catch file promptText attempt e w =
     (AwaitBackoff file promptText attempt e, after_failure attempt e w)"

text \<open>
  \<open>processFile\<close> from the return of \<open>generateWithRetry\<close> to the \<open>await\<close> of the status
  update: the file name, the write, the request.
\<close>

definition send_status ::
  "externals \<Rightarrow> pending_file \<Rightarrow> jsstring \<Rightarrow> world \<Rightarrow> task \<times> world" where
  "send_status ext file safeFilename w =
     (case axios_put ext (EXTERNAL_API_URL @ js ''/'' @ file_id file)
             \<lparr>put_status = js ''AlreadyCopy'',
              completedTimestamp = date_now ext (length (put_log w))\<rparr> w of
        (r, w') \<Rightarrow> (AwaitPut file safeFilename r, w'))"

definition processFile_persist ::
  "externals \<Rightarrow> pending_file \<Rightarrow> js_error + jsstring option \<Rightarrow> world \<Rightarrow> task \<times> world" where
  "processFile_persist ext file r w =
     (case r of
        Inl e \<Rightarrow> processFile_catch file e w
      | Inr generatedContent \<Rightarrow>
          (case writeFileSync ext (generateSafeFilename (originalFilename file)) generatedContent w of
             (Some e, w') \<Rightarrow> processFile_catch file e w'
           | (None, w') \<Rightarrow> send_status ext file (generateSafeFilename (originalFilename file)) w'))"

text \<open>One task resumed: it runs to its next \<open>await\<close>.\<close>

fun resume :: "externals \<Rightarrow> jsstring \<Rightarrow> task \<Rightarrow> world \<Rightarrow> task \<times> world" where
  "resume ext model (AwaitGet file r) w =
     (case r of
        Inl e \<Rightarrow> processFile_catch file e w
      | Inr d \<Rightarrow> attempt_start ext file (promptText_of ext d) 0 w)"
| "resume ext model (AwaitDelay file promptText attempt ai) w =
     (case call_generateContent ext ai model promptText w of
        (r, w') \<Rightarrow> (AwaitGenerate file promptText attempt r, w'))"
| "resume ext model (AwaitGenerate file promptText attempt r) w =
     (case r of
        Inl e \<Rightarrow> attempt_catch file promptText (attempt + 1) e w
      | Inr t \<Rightarrow>
          (if falsy t then attempt_catch file promptText (attempt + 1) (Error ''Empty response'') w
           else (AwaitGenerated file (Inr t), w)))"
| "resume ext model (AwaitBackoff file promptText attempt e) w =
     (if attempt \<ge> MAX_RETRIES then (AwaitGenerated file (Inl e), w)
      else attempt_start ext file promptText attempt w)"
| "resume ext model (AwaitGenerated file r) w = processFile_persist ext file r w"
| "resume ext model (AwaitPut file safeFilename r) w =
     (case r of
        Some e \<Rightarrow> processFile_catch file e w
      | None \<Rightarrow>
          (AwaitProcessed \<lparr>success = True, name = safeFilename, error = None\<rparr>,
           console_log (Done safeFilename) w))"
| "resume ext model (AwaitProcessed result) w = (AwaitProcessed result, w)"

definition returned :: "task \<Rightarrow> outcome option" where
  \<comment> \<open>the outcome of a call that has returned\<close>
  "returned task = (case task of AwaitProcessed result \<Rightarrow> Some result | _ \<Rightarrow> None)"

text \<open>
  The number of resumptions a task can still take is bounded: every resumption lowers
  this rank.
\<close>

fun task_rank :: "task \<Rightarrow> nat" where
  "task_rank (AwaitGet file r) = 3 * MAX_RETRIES + 7"
| "task_rank (AwaitDelay file promptText attempt ai) = 3 * (MAX_RETRIES - (attempt + 1)) + 5"
| "task_rank (AwaitGenerate file promptText attempt r) = 3 * (MAX_RETRIES - (attempt + 1)) + 4"
| "task_rank (AwaitBackoff file promptText attempt e) = 3 * (MAX_RETRIES - attempt) + 3"
| "task_rank (AwaitGenerated file r) = 2"
| "task_rank (AwaitPut file safeFilename r) = 1"
| "task_rank (AwaitProcessed result) = 0"

lemma resume_rank:
  "returned task = None \<Longrightarrow> task_rank (fst (resume ext model task w)) < task_rank task"
proof (cases task)
  case (AwaitGet f r)
  then show ?thesis
    by (auto simp: processFile_catch_def attempt_start_def split: sum.splits prod.splits)
next
  case (AwaitDelay f promptText attempt ai)
  then show ?thesis by (simp split: prod.splits)
next
  case (AwaitGenerate f promptText attempt r)
  then show ?thesis by (auto simp: attempt_catch_def split: sum.splits)
next
  case (AwaitBackoff f promptText attempt e)
  then show ?thesis by (auto simp: attempt_start_def split: prod.splits)
next
  case (AwaitGenerated f r)
  then show ?thesis
    by (auto simp: processFile_persist_def processFile_catch_def send_status_def
        split: sum.splits prod.splits option.splits)
next
  case (AwaitPut f safeFilename r)
  then show ?thesis by (auto simp: processFile_catch_def split: option.splits)
next
  case (AwaitProcessed result)
  assume "returned task = None"
  with AwaitProcessed show ?thesis by (simp add: returned_def)
qed

text \<open>
  One call of \<open>processFile\<close> running alone: the task is resumed until it has returned.
\<close>

function run_task :: "externals \<Rightarrow> jsstring \<Rightarrow> task \<Rightarrow> world \<Rightarrow> outcome \<times> world" where
  "run_task ext model task w =
     (case returned task of
        Some result \<Rightarrow> (result, w)
      | None \<Rightarrow> (case resume ext model task w of (task', w') \<Rightarrow> run_task ext model task' w'))"
  by pat_completeness auto
termination
proof (relation "measure (\<lambda>(ext, model, task, w). task_rank task)", goal_cases)
  case 1
  show ?case by simp
next
  case (2 ext model task w task' w')
  have "fst (resume ext model task w) = task'" using 2(2)[symmetric] by simp
  with resume_rank[OF 2(1), of ext model w] show ?case by simp
qed

declare run_task.simps [simp del]

section \<open>The queue of workers\<close>

text \<open>
  A worker is \<open>Some (currentIndex, task)\<close> while it processes the item of that index and
  \<open>None\<close> once it has left its loop. The head of the worker loop runs without
  interruption: \<open>break\<close> when the shared \<open>index\<close> has reached the end, otherwise claim
  \<open>currentIndex = index++\<close> and call \<open>processFile\<close>, which runs to its first \<open>await\<close>.
\<close>

type_synonym worker = "(nat \<times> task) option"

definition worker_next ::
  "externals \<Rightarrow> pending_file list \<Rightarrow> nat \<Rightarrow> world \<Rightarrow> worker \<times> nat \<times> world" where
  "worker_next ext files index w =
     (if index \<ge> length files then (None, index, w)
      else (case processFile_start ext (files ! index) w of
              (task, w') \<Rightarrow> (Some (index, task), index + 1, w')))"

text \<open>\<open>Array.from({ length: n }, () => worker())\<close> starts the workers one after another.\<close>

fun start_workers ::
  "externals \<Rightarrow> pending_file list \<Rightarrow> nat \<Rightarrow> nat \<Rightarrow> world \<Rightarrow> worker list \<times> nat \<times> world" where
  "start_workers ext files 0 index w = ([], index, w)"
| "start_workers ext files (Suc n) index w =
     (case worker_next ext files index w of
        (st, index', w') \<Rightarrow>
          (case start_workers ext files n index' w' of
             (sts, index'', w'') \<Rightarrow> (st # sts, index'', w'')))"

fun pending_from :: "nat \<Rightarrow> 'a option list \<Rightarrow> (nat \<times> 'a) list" where
  "pending_from k [] = []"
| "pending_from k (None # workers) = pending_from (Suc k) workers"
| "pending_from k (Some x # workers) = (k, x) # pending_from (Suc k) workers"

definition pending_workers :: "worker list \<Rightarrow> (nat \<times> nat \<times> task) list" where
  \<comment> \<open>the workers still in their loop: position, item index and task\<close>
  "pending_workers workers = pending_from 0 workers"

text \<open>
  The workers interleave at every \<open>await\<close>: \<open>sched t\<close> picks, among the workers still in
  their loop, the one whose awaited promise settles at step \<open>t\<close>. If that worker awaits
  \<open>processFile\<close> itself, it pushes the result and runs the head of its loop again;
  otherwise its call of \<open>processFile\<close> is resumed and runs to its next \<open>await\<close>.
  \<open>Promise.all\<close> resolves when every worker has left its loop.
\<close>

function runQueue_loop ::
  "externals \<Rightarrow> pending_file list \<Rightarrow> jsstring \<Rightarrow> (nat \<Rightarrow> nat) \<Rightarrow> nat \<Rightarrow> nat
     \<Rightarrow> worker list \<Rightarrow> outcome list \<Rightarrow> world \<Rightarrow> outcome list \<times> world" where
  "runQueue_loop ext files model sched t index workers results w =
     (if pending_workers workers = [] then (results, w)
      else
        (case pending_workers workers ! (sched t mod length (pending_workers workers)) of
           (j, currentIndex, task) \<Rightarrow>
             (case returned task of
                Some result \<Rightarrow>
                  (case worker_next ext files index w of
                     (st, index', w') \<Rightarrow>
                       runQueue_loop ext files model sched (t + 1) index' (workers[j := st])
                         (results @ [result]) w')
              | None \<Rightarrow>
                  (case resume ext model task w of
                     (task', w') \<Rightarrow>
                       runQueue_loop ext files model sched (t + 1) index
                         (workers[j := Some (currentIndex, task')]) results w'))))"
  by pat_completeness auto

text \<open>
  The loop ends: a step claims an item, and fewer are left, or retires a worker, or lowers
  the rank of a task.
\<close>

definition worker_rank :: "worker \<Rightarrow> nat" where
  "worker_rank st = (case st of None \<Rightarrow> 0 | Some (i, task) \<Rightarrow> task_rank task + 1)"

lemma sum_list_update:
  "j < length ws \<Longrightarrow>
   sum_list (map f (ws[j := v])) + f (ws ! j) = sum_list (map f ws) + (f v :: nat)"
proof (induction ws arbitrary: j)
  case Nil
  then show ?case by simp
next
  case (Cons a ws)
  then show ?case by (cases j) auto
qed

lemma pending_from_mem:
  "(j, x) \<in> set (pending_from k ws) \<Longrightarrow> k \<le> j \<and> j - k < length ws \<and> ws ! (j - k) = Some x"
proof (induction k ws rule: pending_from.induct)
  case (1 k)
  then show ?case by simp
next
  case (2 k workers)
  then have a: "Suc k \<le> j \<and> j - Suc k < length workers \<and> workers ! (j - Suc k) = Some x" by simp
  then have "j - k = Suc (j - Suc k)" by arith
  with a show ?case by simp
next
  case (3 k x' workers)
  show ?case
  proof (cases "(j, x) = (k, x')")
    case True
    then show ?thesis by simp
  next
    case False
    with 3 have a: "Suc k \<le> j \<and> j - Suc k < length workers \<and> workers ! (j - Suc k) = Some x" by auto
    then have "j - k = Suc (j - Suc k)" by arith
    with a show ?thesis by simp
  qed
qed

lemma pending_workers_mem:
  "(j, x) \<in> set (pending_workers ws) \<Longrightarrow> j < length ws \<and> ws ! j = Some x"
  using pending_from_mem[of j x 0 ws] by (simp add: pending_workers_def)

lemma pending_workers_pick:
  "pending_workers ws \<noteq> [] \<Longrightarrow>
   (j, x) = pending_workers ws ! (k mod length (pending_workers ws)) \<Longrightarrow>
   j < length ws \<and> ws ! j = Some x"
  using pending_workers_mem[of j x ws] nth_mem[of "k mod length (pending_workers ws)" "pending_workers ws"]
  by simp

termination runQueue_loop
proof (relation "measure (\<lambda>(ext, files, model, sched, t, index, workers, results, w).
          (length files - index) * (3 * MAX_RETRIES + 9) + sum_list (map worker_rank workers))",
       goal_cases)
  case 1
  show ?case by simp
next
  case (2 ext files model sched t index workers results w j y currentIndex task task' w')
  have j: "j < length workers" "workers ! j = Some (currentIndex, task)"
    using pending_workers_pick[OF 2(1), of j "(currentIndex, task)" "sched t"] 2(2) 2(3) by simp_all
  have "fst (resume ext model task w) = task'" using 2(5)[symmetric] by simp
  with resume_rank[OF 2(4), of ext model w] have "task_rank task' < task_rank task" by simp
  moreover from sum_list_update[OF j(1), of worker_rank "Some (currentIndex, task')"] j(2)
  have "sum_list (map worker_rank (workers[j := Some (currentIndex, task')])) + (task_rank task + 1)
          = sum_list (map worker_rank workers) + (task_rank task' + 1)"
    by (simp add: worker_rank_def)
  ultimately show ?case by simp
next
  case (3 ext files model sched t index workers results w j y currentIndex task result st y' index' w')
  have j: "j < length workers" "workers ! j = Some (currentIndex, task)"
    using pending_workers_pick[OF 3(1), of j "(currentIndex, task)" "sched t"] 3(2) 3(3) by simp_all
  have r: "worker_rank (workers ! j) = 1"
    using j(2) 3(4) by (cases task) (simp_all add: worker_rank_def returned_def)
  from sum_list_update[OF j(1), of worker_rank st] r
  have s: "sum_list (map worker_rank (workers[j := st])) + 1
            = sum_list (map worker_rank workers) + worker_rank st" by simp
  have n: "worker_next ext files index w = (st, index', w')" using 3(5) 3(6) by simp
  have "(st = None \<and> index' = index)
        \<or> (worker_rank st = 3 * MAX_RETRIES + 8 \<and> index < length files \<and> index' = index + 1)"
    using n
    by (auto simp: worker_next_def processFile_start_def worker_rank_def split: if_splits prod.splits)
  then show ?case
  proof
    assume "st = None \<and> index' = index"
    with s show ?thesis by (simp add: worker_rank_def)
  next
    assume a: "worker_rank st = 3 * MAX_RETRIES + 8 \<and> index < length files \<and> index' = index + 1"
    then have "(length files - index) = Suc (length files - index')" by arith
    with s a show ?thesis by simp
  qed
qed

declare runQueue_loop.simps [simp del]

definition GEMINI_MODEL :: "externals \<Rightarrow> jsstring" where
  \<comment> \<open>\<open>process.env.GEMINI_MODEL || 'gemini-3-flash-preview'\<close>\<close>
  "GEMINI_MODEL ext =
     (if falsy (env_get ext ''GEMINI_MODEL'') then js ''gemini-3-flash-preview''
      else the (env_get ext ''GEMINI_MODEL''))"

text \<open>\<open>runQueue\<close> with the number of workers as a parameter, and as the source fixes it.\<close>

definition runQueue_with ::
  "nat \<Rightarrow> externals \<Rightarrow> pending_file list \<Rightarrow> (nat \<Rightarrow> nat) \<Rightarrow> world \<Rightarrow> outcome list \<times> world" where
  "runQueue_with n ext files sched w =
     (case start_workers ext files n 0 w of
        (workers, index, w') \<Rightarrow>
          runQueue_loop ext files (GEMINI_MODEL ext) sched 0 index workers [] w')"

definition runQueue ::
  "externals \<Rightarrow> pending_file list \<Rightarrow> (nat \<Rightarrow> nat) \<Rightarrow> world \<Rightarrow> outcome list \<times> world" where
  "runQueue ext files sched w = runQueue_with CONCURRENCY_LIMIT ext files sched w"

section \<open>Report and notification\<close>

function show_nat :: "nat \<Rightarrow> jsstring" where
  "show_nat n = (if n < 10 then [48 + n] else show_nat (n div 10) @ [48 + n mod 10])"
  by pat_completeness auto
termination
  by (relation "measure id") auto

fun join :: "jsstring \<Rightarrow> jsstring list \<Rightarrow> jsstring" where
  "join sep [] = []"
| "join sep [x] = x"
| "join sep (x # y # ys) = x @ sep @ join sep (y # ys)"

definition NL :: jsstring where
  "NL = [10]"

definition endsWith :: "jsstring \<Rightarrow> jsstring \<Rightarrow> bool" where
  "endsWith suffix s = (length suffix \<le> length s \<and> drop (length s - length suffix) s = suffix)"

text \<open>\<open>getFolderStats\<close> returns \<open>totalFiles\<close> and \<open>mdxFiles\<close>.\<close>

definition getFolderStats :: "world \<Rightarrow> nat \<times> nat" where
  "getFolderStats w =
     (if \<not> dir_exists w then (0, 0)
      else (length (map fst (dir_files w)),
            length (filter (endsWith (js ''.mdx'')) (map fst (dir_files w)))))"

text \<open>
  \<open>sendEmail\<close> returns at once without \<open>EMAIL_HOST\<close>; otherwise it awaits
  \<open>transporter.sendMail\<close>, whose error, if any, it lets through (\<open>Some\<close>).
\<close>

definition sendEmail :: "externals \<Rightarrow> jsstring \<Rightarrow> jsstring \<Rightarrow> world \<Rightarrow> js_error option \<times> world" where
  "sendEmail ext subject text w =
     (if falsy (env_get ext ''EMAIL_HOST'') then (None, w)
      else
        (sendMail ext (length (mail_log w))
           \<lparr>mail_from = or_else (env_get ext ''EMAIL_FROM'') (env_get ext ''EMAIL_USER''),
            mail_to = or_else (env_get ext ''EMAIL_TO'') (env_get ext ''EMAIL_USER''),
            mail_subject = subject, mail_text = text\<rparr>,
         w\<lparr>mail_log := mail_log w
                @ [\<lparr>mail_from = or_else (env_get ext ''EMAIL_FROM'') (env_get ext ''EMAIL_USER''),
                    mail_to = or_else (env_get ext ''EMAIL_TO'') (env_get ext ''EMAIL_USER''),
                    mail_subject = subject, mail_text = text\<rparr>]\<rparr>))"

definition report_subject :: "externals \<Rightarrow> outcome list \<Rightarrow> outcome list \<Rightarrow> jsstring" where
  "report_subject ext succeeded failed =
     js ''Content Generation Report - '' @ dateTimeStr ext @ js '' - ''
     @ show_nat (length succeeded) @ js '' Success, ''
     @ show_nat (length failed) @ js '' Failed''"

definition failed_line :: "outcome \<Rightarrow> jsstring" where
  "failed_line f =
     js ''- '' @ name f @ js '' (''
     @ (case error f of None \<Rightarrow> js ''undefined'' | Some e \<Rightarrow> e) @ js '')''"

definition report_body ::
  "externals \<Rightarrow> nat \<times> nat \<Rightarrow> outcome list \<Rightarrow> outcome list \<Rightarrow> jsstring" where
  "report_body ext folderStats succeeded failed =
     join NL
       [[],
        js ''Multi-Key Content Generation Report'',
        js ''----------------------------------'',
        js ''Date & Time (BDT): '' @ dateTimeStr ext,
        js ''Total Processed: '' @ show_nat (length succeeded + length failed),
        js ''Success: '' @ show_nat (length succeeded),
        js ''Failed: '' @ show_nat (length failed),
        [],
        js ''Successful Files:'',
        join NL (map (\<lambda>f. js ''- '' @ name f) succeeded),
        [],
        js ''Failed Files:'',
        join NL (map failed_line failed),
        [],
        js ''Folder Stats:'',
        js ''- Total files in folder: '' @ show_nat (fst folderStats),
        js ''- Total MDX files: '' @ show_nat (snd folderStats),
        [],
        js ''Generated content has been saved to the repository.'',
        []]"

definition sendBatchEmail ::
  "externals \<Rightarrow> outcome list \<Rightarrow> outcome list \<Rightarrow> world \<Rightarrow> js_error option \<times> world" where
  "sendBatchEmail ext succeeded failed w =
     sendEmail ext (report_subject ext succeeded failed)
       (report_body ext (getFolderStats w) succeeded failed) w"

section \<open>The main run\<close>

text \<open>
  The \<open>try\<close> block of \<open>run\<close> from the point where the pending files are known. Its
  result is the error thrown, if any.
\<close>

definition report_results ::
  "externals \<Rightarrow> outcome list \<times> world \<Rightarrow> js_error option \<times> world" where
  "report_results ext rw =
     (case sendBatchEmail ext (filter success (fst rw)) (filter (\<lambda>r. \<not> success r) (fst rw))
             (snd rw) of
        (Some e, w') \<Rightarrow> (Some e, w')
      | (None, w') \<Rightarrow> (None, console_log BatchCompleted w'))"

definition run_batch ::
  "externals \<Rightarrow> (nat \<Rightarrow> nat) \<Rightarrow> pending_file list \<Rightarrow> world \<Rightarrow> js_error option \<times> world" where
  "run_batch ext sched pendingFiles w =
     (if pendingFiles = [] then (None, console_log NoPendingFiles w)
      else report_results ext
             (runQueue ext pendingFiles sched (console_log (FoundFiles (length pendingFiles)) w)))"

definition run_try :: "externals \<Rightarrow> (nat \<Rightarrow> nat) \<Rightarrow> world \<Rightarrow> js_error option \<times> world" where
  "run_try ext sched w =
     (case axios_get ext EXTERNAL_API_URL w of
        (Inl e, w1) \<Rightarrow> (Some e, w1)
      | (Inr (PFiles allFiles), w1) \<Rightarrow>
          run_batch ext sched
            (take BATCH_SIZE (filter (\<lambda>f. status f = js ''Pending'') allFiles)) w1
      | (Inr _, w1) \<Rightarrow> (Some (Error ''response.data.filter is not a function''), w1))"

text \<open>
  The \<open>catch\<close> block of \<open>run\<close>: the fatal error is printed and mailed, then
  \<open>process.exit(1)\<close>. If that mail fails too, the promise of \<open>run\<close> is rejected and
  nobody handles it.
\<close>

definition run_catch :: "externals \<Rightarrow> js_error \<Rightarrow> world \<Rightarrow> process_end \<times> world" where
  "run_catch ext e w =
     (case sendEmail ext (js ''Batch Failed'') (message e) (console_log (FatalError (message e)) w) of
        (Some e2, w') \<Rightarrow> (Uncaught e2, w')
      | (None, w') \<Rightarrow> (ExitCode 1, w'))"

definition run :: "externals \<Rightarrow> (nat \<Rightarrow> nat) \<Rightarrow> world \<Rightarrow> process_end \<times> world" where
  "run ext sched w =
     (case run_try ext sched (console_log Starting w) of
        (None, w') \<Rightarrow> (ExitCode 0, w')
      | (Some e, w') \<Rightarrow> run_catch ext e w')"

text \<open>
  The module from its first statement: the output directory is created if it is missing,
  the credentials are collected, and without any the module throws before \<open>run\<close> is
  reached.
\<close>

definition program :: "externals \<Rightarrow> (nat \<Rightarrow> nat) \<Rightarrow> world \<Rightarrow> process_end \<times> world" where
  "program ext sched w =
     (if apiKeys ext = [] then
        (Uncaught (Error ''No GEMINI_API_KEY variables found.''), w\<lparr>dir_exists := True\<rparr>)
      else run ext sched
             (console_log (LoadedKeys (length (apiKeys ext))) (w\<lparr>dir_exists := True\<rparr>)))"

section \<open>Vocabulary of the properties, and a sample configuration\<close>

text \<open>
  An upstream answer counts as a failure of the attempt when it is an error or carries no
  text; \<open>thrown_by\<close> is the error that the attempt then throws, and \<open>request_of\<close> the
  request that an attempt started in a given state sends.
\<close>

definition gen_fails :: "js_error + jsstring option \<Rightarrow> bool" where
  "gen_fails r = (case r of Inl e \<Rightarrow> True | Inr t \<Rightarrow> falsy t)"

definition thrown_by :: "js_error + jsstring option \<Rightarrow> js_error" where
  "thrown_by r = (case r of Inl e \<Rightarrow> e | Inr t \<Rightarrow> Error ''Empty response'')"

definition request_of :: "externals \<Rightarrow> jsstring \<Rightarrow> jsstring \<Rightarrow> world \<Rightarrow> gen_request" where
  "request_of ext promptText model w =
     \<lparr>req_apiKey = at_index (apiKeys ext) (keyIndex w), req_model = model, req_contents = promptText\<rparr>"

text \<open>The keys handed out by \<open>n\<close> calls of \<open>getNextGemini\<close> in a row, first call first.\<close>

fun getNextGemini_times :: "externals \<Rightarrow> nat \<Rightarrow> world \<Rightarrow> jsstring option list \<times> world" where
  "getNextGemini_times ext 0 w = ([], w)"
| "getNextGemini_times ext (Suc n) w =
     (case getNextGemini ext w of
        (key, w') \<Rightarrow>
          (case getNextGemini_times ext n w' of (keys, w'') \<Rightarrow> (key # keys, w'')))"

text \<open>The state in which the module starts.\<close>

definition initial_world :: world where
  "initial_world =
     \<lparr>dir_exists = False, dir_files = [], keyIndex = 0, get_log = [], gen_log = [],
      write_log = [], put_log = [], mail_log = [], slept = [], console = []\<rparr>"

text \<open>
  A sample run: two credentials, mail configured, three file records of which two are
  pending, and collaborators that always succeed. The variants below make one
  collaborator fail.
\<close>

definition demo_file1 :: pending_file where
  "demo_file1 =
     \<lparr>file_id = js ''f1'', originalFilename = js ''First Post.txt'',
      secureUrl = js ''https://cdn.example/f1'', status = js ''Pending''\<rparr>"

definition demo_file2 :: pending_file where
  "demo_file2 =
     \<lparr>file_id = js ''f2'', originalFilename = js ''old.txt'',
      secureUrl = js ''https://cdn.example/f2'', status = js ''AlreadyCopy''\<rparr>"

definition demo_file3 :: pending_file where
  "demo_file3 =
     \<lparr>file_id = js ''f3'', originalFilename = js ''notes_v2.md'',
      secureUrl = js ''https://cdn.example/f3'', status = js ''Pending''\<rparr>"

definition demo_files :: "pending_file list" where
  "demo_files = [demo_file1, demo_file2, demo_file3]"

definition demo_ext :: externals where
  "demo_ext =
     \<lparr>process_env =
        [(js ''GEMINI_API_KEY_2'', js ''key-b''), (js ''EMAIL_HOST'', js ''smtp.example.org''),
         (js ''GEMINI_API_KEY_1'', js ''key-a''), (js ''GEMINI_API_KEY_3'', [])],
      http_get = (\<lambda>n url. if url = EXTERNAL_API_URL then Inr (PFiles demo_files)
                          else Inr (PString (js ''prompt''))),
      generateContent = (\<lambda>n req. Inr (Some (js ''generated''))),
      writeFile = (\<lambda>n fileName content. Written),
      http_put = (\<lambda>n url body. None),
      sendMail = (\<lambda>n m. None),
      date_now = (\<lambda>n. 1760000000000 + n),
      dateTimeStr = js ''11/3/2026, 9:00:00 AM'',
      JSON_stringify = (\<lambda>d. js ''{}'')\<rparr>"

definition flaky_ext :: "nat \<Rightarrow> externals" where
  \<comment> \<open>the generation service fails its first \<open>k\<close> calls with a rate-limit error\<close>
  "flaky_ext k =
     demo_ext\<lparr>generateContent :=
       (\<lambda>n req. if n < k then Inl \<lparr>message = js ''Too Many Requests'', response_status = Some 429\<rparr>
                 else Inr (Some (js ''generated'')))\<rparr>"

definition put_fail_ext :: externals where
  \<comment> \<open>the status update of the pending-files API fails\<close>
  "put_fail_ext =
     demo_ext\<lparr>http_put :=
       (\<lambda>n url body. Some \<lparr>message = js ''Request failed with status code 500'',
                             response_status = Some 500\<rparr>)\<rparr>"

definition mail_fail_ext :: externals where
  \<comment> \<open>the SMTP transport refuses every mail\<close>
  "mail_fail_ext =
     demo_ext\<lparr>sendMail :=
       (\<lambda>n m. Some \<lparr>message = js ''Invalid login'', response_status = None\<rparr>)\<rparr>"

definition mail_fail_once_ext :: externals where
  \<comment> \<open>the SMTP transport refuses the first mail only\<close>
  "mail_fail_once_ext =
     demo_ext\<lparr>sendMail :=
       (\<lambda>n m. if n = 0 then Some \<lparr>message = js ''Invalid login'', response_status = None\<rparr>
               else None)\<rparr>"

definition no_keys_ext :: externals where
  \<comment> \<open>the only credential variable is empty\<close>
  "no_keys_ext =
     demo_ext\<lparr>process_env := [(js ''GEMINI_API_KEY'', []), (js ''EMAIL_HOST'', js ''smtp.example.org'')]\<rparr>"

definition idle_ext :: externals where
  \<comment> \<open>no file record is pending\<close>
  "idle_ext = demo_ext\<lparr>http_get := (\<lambda>n url. Inr (PFiles [demo_file2]))\<rparr>"

text \<open>The address and the body of the status update that \<open>processFile\<close> sends for a file.\<close>

definition status_url :: "pending_file \<Rightarrow> jsstring" where
  "status_url file = EXTERNAL_API_URL @ js ''/'' @ file_id file"

definition status_body :: "externals \<Rightarrow> world \<Rightarrow> put_body" where
  "status_body ext w =
     \<lparr>put_status = js ''AlreadyCopy'', completedTimestamp = date_now ext (length (put_log w))\<rparr>"

text \<open>
  An outcome belongs to a file record when it is what \<open>processFile\<close> returns for it: on
  success the generated file name and no error, on failure the original file name and an
  error message. A task belongs to a file record when it is a call of \<open>processFile\<close> for
  that record.
\<close>

definition outcome_for :: "outcome \<Rightarrow> pending_file \<Rightarrow> bool" where
  "outcome_for r file =
     (if success r then name r = generateSafeFilename (originalFilename file) \<and> error r = None
      else name r = originalFilename file \<and> error r \<noteq> None)"

fun task_for :: "pending_file \<Rightarrow> task \<Rightarrow> bool" where
  "task_for file (AwaitGet f r) = (f = file)"
| "task_for file (AwaitDelay f promptText attempt ai) = (f = file)"
| "task_for file (AwaitGenerate f promptText attempt r) = (f = file)"
| "task_for file (AwaitBackoff f promptText attempt e) = (f = file)"
| "task_for file (AwaitGenerated f r) = (f = file)"
| "task_for file (AwaitPut f safeFilename r) =
     (f = file \<and> safeFilename = generateSafeFilename (originalFilename file))"
| "task_for file (AwaitProcessed result) = outcome_for result file"

text \<open>The items that the workers of a queue hold, each with its task, as a multiset.\<close>

definition worker_items :: "worker \<Rightarrow> (nat \<times> task) multiset" where
  "worker_items st = (case st of None \<Rightarrow> {#} | Some x \<Rightarrow> {#x#})"

definition held :: "worker list \<Rightarrow> (nat \<times> task) multiset" where
  "held ws = sum_list (map worker_items ws)"

text \<open>
  The steps of one call of \<open>processFile\<close> that runs alone: the state once the prompt has
  been requested, what \<open>generateWithRetry\<close> then returns for the prompt data \<open>d\<close>, and
  what the write of the generated content does in a given state.
\<close>

definition after_fetch :: "externals \<Rightarrow> pending_file \<Rightarrow> world \<Rightarrow> world" where
  "after_fetch ext file w =
     snd (axios_get ext (secureUrl file) (console_log (Processing (originalFilename file)) w))"

definition generation ::
  "externals \<Rightarrow> pending_file \<Rightarrow> jsstring \<Rightarrow> payload \<Rightarrow> world
     \<Rightarrow> (js_error + jsstring option) \<times> world" where
  "generation ext file model d w =
     generateWithRetry ext (promptText_of ext d) model (after_fetch ext file w)"

definition written ::
  "externals \<Rightarrow> pending_file \<Rightarrow> jsstring option \<Rightarrow> world \<Rightarrow> js_error option \<times> world" where
  "written ext file generatedContent w =
     writeFileSync ext (generateSafeFilename (originalFilename file)) generatedContent w"

text \<open>
  The items of a batch by outcome, given the outcomes \<open>rs\<close> and, position by position,
  the file records \<open>fs\<close> they belong to: the records that succeeded, and the records
  that failed with their error message.
\<close>

definition succeeded_items :: "outcome list \<Rightarrow> pending_file list \<Rightarrow> pending_file list" where
  "succeeded_items rs fs = map snd (filter (\<lambda>(r, f). success r) (zip rs fs))"

definition failed_items :: "outcome list \<Rightarrow> pending_file list \<Rightarrow> (pending_file \<times> jsstring) list" where
  "failed_items rs fs =
     map (\<lambda>(r, f). (f, the (error r))) (filter (\<lambda>(r, f). \<not> success r) (zip rs fs))"

text \<open>More variants of the sample configuration, and a state with an older output file.\<close>

definition get_fail_ext :: externals where
  \<comment> \<open>the prompts cannot be fetched\<close>
  "get_fail_ext =
     demo_ext\<lparr>http_get :=
       (\<lambda>n url. if url = EXTERNAL_API_URL then Inr (PFiles demo_files)
                  else Inl \<lparr>message = js ''Request failed with status code 404'',
                            response_status = Some 404\<rparr>)\<rparr>"

definition write_fail_ext :: externals where
  \<comment> \<open>the disk is full: every write fails after the file has been opened\<close>
  "write_fail_ext =
     demo_ext\<lparr>writeFile :=
       (\<lambda>n fileName content.
          WriteFailed \<lparr>message = js ''ENOSPC: no space left on device, write'',
                       response_status = None\<rparr> (Some []))\<rparr>"

definition stale_world :: world where
  \<comment> \<open>an earlier run has left a file in the output directory\<close>
  "stale_world =
     initial_world\<lparr>dir_exists := True, dir_files := [(js ''first-post.mdx'', js ''earlier'')]\<rparr>"

definition partial_ext :: externals where
  \<comment> \<open>the prompt of the third file record cannot be fetched\<close>
  "partial_ext =
     demo_ext\<lparr>http_get :=
       (\<lambda>n url. if url = EXTERNAL_API_URL then Inr (PFiles demo_files)
                  else if url = secureUrl demo_file3
                  then Inl \<lparr>message = js ''Request failed with status code 404'',
                            response_status = Some 404\<rparr>
                  else Inr (PString (js ''prompt'')))\<rparr>"

section \<open>Properties of the slug generator\<close>

lemma no_double_Nil [simp]: "no_double []"
  by (simp add: no_double_def)

lemma no_double_Cons:
  "no_double (c # cs) \<longleftrightarrow> (cs = [] \<or> \<not> (c = HYPHEN \<and> hd cs = HYPHEN)) \<and> no_double cs"
  by (cases cs) (auto simp: no_double_def)

lemma set_replace_runs: "set (replace_runs p s) \<subseteq> {c \<in> set s. \<not> p c} \<union> {HYPHEN}"
proof (induction p s rule: replace_runs.induct)
  case (1 p) show ?case by simp
next
  case (2 p c cs)
  have "set (dropWhile p cs) \<subseteq> set cs" by (auto dest: set_dropWhileD)
  with 2 show ?case by (auto split: if_splits)
qed

lemma set_trim: "set (trim s) \<subseteq> set s"
  unfolding trim_def by (auto dest!: set_dropWhileD)

lemma replace_runs_hd:
  "s \<noteq> [] \<Longrightarrow> \<not> p (hd s) \<Longrightarrow> replace_runs p s \<noteq> [] \<and> hd (replace_runs p s) = hd s"
  by (cases s) auto

lemma dropWhile_hd: "dropWhile p cs \<noteq> [] \<Longrightarrow> \<not> p (hd (dropWhile p cs))"
  using hd_dropWhile by blast

lemma no_double_replace_runs: "no_double (replace_runs (\<lambda>c. c = HYPHEN) s)"
proof (induction "\<lambda>c::nat. c = HYPHEN" s rule: replace_runs.induct)
  case 1 show ?case by (simp add: no_double_Nil)
next
  case (2 c cs)
  let ?p = "\<lambda>c::nat. c = HYPHEN"
  show ?case
  proof (cases "c = HYPHEN")
    case True
    let ?d = "dropWhile ?p cs"
    have ih: "no_double (replace_runs ?p ?d)" using 2(1) True by simp
    show ?thesis
    proof (cases "?d = []")
      case True
      with \<open>c = HYPHEN\<close> show ?thesis
        by (simp add: no_double_Cons del: dropWhile_eq_Nil_conv)
    next
      case False
      then have "\<not> ?p (hd ?d)" by (rule dropWhile_hd)
      with False have "replace_runs ?p ?d \<noteq> [] \<and> hd (replace_runs ?p ?d) = hd ?d"
        by (intro replace_runs_hd)
      with ih \<open>\<not> ?p (hd ?d)\<close> \<open>c = HYPHEN\<close> show ?thesis
        by (cases "replace_runs ?p ?d") (auto simp: no_double_Cons)
    qed
  next
    case False
    then have ih: "no_double (replace_runs ?p cs)" using 2(2) by simp
    with False show ?thesis
      by (cases "replace_runs ?p cs") (auto simp: no_double_Cons)
  qed
qed

lemma no_double_last:
  "no_double s \<Longrightarrow> s \<noteq> [] \<Longrightarrow> last s = HYPHEN \<Longrightarrow> butlast s \<noteq> [] \<Longrightarrow> last (butlast s) \<noteq> HYPHEN"
proof (induction s rule: induct_list012)
  case 1 then show ?case by simp
next
  case (2 x) then show ?case by simp
next
  case (3 x y zs)
  then show ?case by (cases zs) (auto simp: no_double_Cons)
qed

lemma no_double_tl: "no_double s \<Longrightarrow> no_double (tl s)"
  by (cases s) (auto simp: no_double_Cons)

lemma strip_trailing_no_edge:
  assumes "no_double s" "s = [] \<or> hd s \<noteq> HYPHEN"
  shows "no_edge_hyphen (strip_trailing_hyphen s)"
proof (cases "s \<noteq> [] \<and> last s = HYPHEN")
  case True
  then have b: "butlast s \<noteq> [] \<Longrightarrow> last (butlast s) \<noteq> HYPHEN"
    using no_double_last[OF assms(1)] by blast
  have "butlast s \<noteq> [] \<Longrightarrow> hd (butlast s) = hd s" by (cases s) auto
  with b assms(2) True show ?thesis
    by (cases "butlast s") (auto simp: strip_trailing_hyphen_def no_edge_hyphen_def)
next
  case False
  with assms(2) show ?thesis
    by (cases s) (auto simp: strip_trailing_hyphen_def no_edge_hyphen_def)
qed

lemma strip_edge_no_edge:
  assumes "no_double s"
  shows "no_edge_hyphen (strip_edge_hyphens s)"
proof (cases s)
  case Nil
  then show ?thesis by (simp add: strip_edge_hyphens_def strip_trailing_hyphen_def no_edge_hyphen_def)
next
  case (Cons c cs)
  show ?thesis
  proof (cases "c = HYPHEN")
    case True
    have "no_double cs" using assms Cons no_double_tl[of s] by simp
    moreover have "cs = [] \<or> hd cs \<noteq> HYPHEN"
      using assms Cons True by (cases cs) (auto simp: no_double_Cons)
    ultimately show ?thesis using Cons True
      by (simp add: strip_edge_hyphens_def strip_trailing_no_edge)
  next
    case False
    then show ?thesis using Cons assms
      by (simp add: strip_edge_hyphens_def strip_trailing_no_edge)
  qed
qed

lemma set_strip_edge: "set (strip_edge_hyphens s) \<subseteq> set s"
  by (cases s) (auto simp: strip_edge_hyphens_def strip_trailing_hyphen_def dest: in_set_butlastD)

lemma slugify_units: "list_all slug_unit (slugify x)"
proof -
  have 1: "set (trim (remove_special x)) \<subseteq> {c. is_word c \<or> is_space c \<or> c = HYPHEN}"
    using set_trim[of "remove_special x"] by (auto simp: remove_special_def)
  have 2: "set (replace_runs is_space (trim (remove_special x))) \<subseteq> {c. slug_unit c}"
    using set_replace_runs[of is_space "trim (remove_special x)"] 1
    by (auto simp: slug_unit_def)
  have 3: "set (replace_runs (\<lambda>c. c = HYPHEN) (replace_runs is_space (trim (remove_special x)))) \<subseteq> {c. slug_unit c}"
    using set_replace_runs[of "\<lambda>c. c = HYPHEN" "replace_runs is_space (trim (remove_special x))"] 2
    by (auto simp: slug_unit_def)
  show ?thesis
    unfolding slugify_def list_all_iff using 3 set_strip_edge by blast
qed

lemma slugify_no_edge: "no_edge_hyphen (slugify x)"
  unfolding slugify_def by (rule strip_edge_no_edge) (rule no_double_replace_runs)

lemma no_double_butlast: "no_double s \<Longrightarrow> no_double (butlast s)"
proof (induction s rule: induct_list012)
  case 1 then show ?case by simp
next
  case (2 x) then show ?case by simp
next
  case (3 x y zs)
  then show ?case by (cases zs) (auto simp: no_double_Cons)
qed

lemma no_double_strip_trailing: "no_double s \<Longrightarrow> no_double (strip_trailing_hyphen s)"
  by (simp add: strip_trailing_hyphen_def no_double_butlast)

lemma no_double_strip_edge: "no_double s \<Longrightarrow> no_double (strip_edge_hyphens s)"
proof (cases s)
  case Nil
  then show ?thesis by (simp add: strip_edge_hyphens_def strip_trailing_hyphen_def)
next
  case (Cons c cs)
  assume nd: "no_double s"
  then have "no_double cs" using Cons no_double_tl[of s] by simp
  with nd Cons show ?thesis
    by (simp add: strip_edge_hyphens_def no_double_strip_trailing)
qed

lemma slugify_no_double: "no_double (slugify x)"
  unfolding slugify_def by (rule no_double_strip_edge) (rule no_double_replace_runs)

lemma set_slugify: "set (slugify x) \<subseteq> set x \<union> {HYPHEN}"
proof -
  have "set (trim (remove_special x)) \<subseteq> set x"
    using set_trim[of "remove_special x"] by (auto simp: remove_special_def)
  then have "set (replace_runs is_space (trim (remove_special x))) \<subseteq> set x \<union> {HYPHEN}"
    using set_replace_runs[of is_space "trim (remove_special x)"] by auto
  then have "set (replace_runs (\<lambda>c. c = HYPHEN) (replace_runs is_space (trim (remove_special x))))
               \<subseteq> set x \<union> {HYPHEN}"
    using set_replace_runs[of "\<lambda>c. c = HYPHEN" "replace_runs is_space (trim (remove_special x))"]
    by auto
  then show ?thesis
    unfolding slugify_def using set_strip_edge by blast
qed

text \<open>What the slug generator does to a string that is a slug already.\<close>

lemma parse_scan_plain:
  "startDot st = -1 \<Longrightarrow> \<forall>i<n. y ! i \<noteq> 46 \<and> y ! i \<noteq> 47 \<Longrightarrow>
   parse_scan y 0 n st
     = (if n = 0 \<or> end_pos st \<noteq> -1 then st else st\<lparr>end_pos := int n, matchedSlash := False\<rparr>)"
proof (induction n arbitrary: st)
  case 0
  then show ?case by simp
next
  case (Suc n)
  have md: "mark_dot (y ! n) n (mark_end n st) = mark_end n st"
    using Suc.prems by (simp add: mark_dot_def mark_end_def)
  have sd: "startDot (mark_end n st) = -1"
    using Suc.prems by (simp add: mark_end_def)
  have "parse_scan y 0 (Suc n) st = parse_scan y 0 n (mark_end n st)"
    using Suc.prems md by simp
  also have "\<dots> = (if n = 0 \<or> end_pos (mark_end n st) \<noteq> -1 then mark_end n st
                   else (mark_end n st)\<lparr>end_pos := int n, matchedSlash := False\<rparr>)"
    using Suc.IH[OF sd] Suc.prems(2) by simp
  finally show ?case by (simp add: mark_end_def)
qed

lemma path_parse_name_plain:
  assumes "\<forall>c\<in>set y. c \<noteq> 46 \<and> c \<noteq> 47"
  shows "path_parse_name y = y"
proof (cases "y = []")
  case True
  then show ?thesis by (simp add: path_parse_name_def)
next
  case False
  then have h: "y ! 0 \<noteq> 47" using assms by (cases y) auto
  have "\<forall>i<length y. y ! i \<noteq> 46 \<and> y ! i \<noteq> 47" using assms by simp
  then show ?thesis
    using False h
    by (simp add: path_parse_name_def parse_scan_plain name_of_scan_def slice_def)
qed

lemma slug_unit_cases:
  "lower_slug_unit c \<Longrightarrow> c \<noteq> 46 \<and> c \<noteq> 47 \<and> \<not> is_upper c \<and> c \<noteq> 8460 \<and> \<not> is_space c
     \<and> (is_word c \<or> c = HYPHEN)"
  by (auto simp: lower_slug_unit_def is_lower_def is_digit_def is_upper_def is_space_def
      is_word_def HYPHEN_def)

lemma replace_runs_id: "\<forall>c\<in>set s. \<not> p c \<Longrightarrow> replace_runs p s = s"
  by (induction s) auto

lemma replace_runs_hyphen_id: "no_double s \<Longrightarrow> replace_runs (\<lambda>c. c = HYPHEN) s = s"
proof (induction s)
  case Nil
  then show ?case by simp
next
  case (Cons c cs)
  then have ih: "replace_runs (\<lambda>c. c = HYPHEN) cs = cs"
    by (cases cs) (auto simp: no_double_Cons)
  show ?case
  proof (cases "c = HYPHEN")
    case True
    then have "dropWhile (\<lambda>c. c = HYPHEN) cs = cs"
      using Cons.prems by (cases cs) (auto simp: no_double_Cons)
    with True ih show ?thesis by simp
  next
    case False
    with ih show ?thesis by simp
  qed
qed

lemma dropWhile_id: "xs = [] \<or> \<not> p (hd xs) \<Longrightarrow> dropWhile p xs = xs"
  by (cases xs) auto

lemma trim_id: "s = [] \<or> (\<not> is_space (hd s) \<and> \<not> is_space (last s)) \<Longrightarrow> trim s = s"
proof -
  assume a: "s = [] \<or> (\<not> is_space (hd s) \<and> \<not> is_space (last s))"
  then have 1: "dropWhile is_space s = s" by (intro dropWhile_id) blast
  have "rev s = [] \<or> \<not> is_space (hd (rev s))" using a by (auto simp: hd_rev)
  then have "dropWhile is_space (rev s) = rev s" by (rule dropWhile_id)
  with 1 show ?thesis by (simp add: trim_def)
qed

lemma nfkd_id: "\<forall>c\<in>set x. c \<noteq> 8460 \<Longrightarrow> normalize_NFKD x = x"
  by (induction x) (auto simp: normalize_NFKD_def nfkd_unit_def)

lemma strip_edge_id: "no_edge_hyphen s \<Longrightarrow> strip_edge_hyphens s = s"
  by (cases s) (auto simp: no_edge_hyphen_def strip_edge_hyphens_def strip_trailing_hyphen_def)

lemma slug_fixed:
  assumes u: "list_all lower_slug_unit y" and d: "no_double y" and e: "no_edge_hyphen y"
  shows "generateSafeFilename y = y @ js ''.mdx''"
proof -
  have all: "\<forall>c\<in>set y. c \<noteq> 46 \<and> c \<noteq> 47 \<and> \<not> is_upper c \<and> c \<noteq> 8460 \<and> \<not> is_space c
               \<and> (is_word c \<or> c = HYPHEN)"
    using u slug_unit_cases by (auto simp: list_all_iff)
  have 1: "path_parse_name y = y" using all by (intro path_parse_name_plain) blast
  have 2: "toLowerCase y = y"
    using all by (simp add: toLowerCase_def toLowerCase_unit_def map_idI)
  have 3: "normalize_NFKD y = y"
    using all by (intro nfkd_id) blast
  have 4: "remove_special y = y" using all by (simp add: remove_special_def)
  have 5: "trim y = y"
  proof (rule trim_id, cases y)
    case Nil then show "y = [] \<or> (\<not> is_space (hd y) \<and> \<not> is_space (last y))" by simp
  next
    case (Cons c cs)
    then have "hd y \<in> set y" "last y \<in> set y" by auto
    with all show "y = [] \<or> (\<not> is_space (hd y) \<and> \<not> is_space (last y))" by blast
  qed
  have 6: "replace_runs is_space y = y" using all by (intro replace_runs_id) blast
  have 7: "replace_runs (\<lambda>c. c = HYPHEN) y = y" using d by (rule replace_runs_hyphen_id)
  have 8: "strip_edge_hyphens y = y" using e by (rule strip_edge_id)
  show ?thesis
    by (simp add: generateSafeFilename_def slugify_def 1 2 3 4 5 6 7 8)
qed

lemma set_path_parse_name: "set (path_parse_name s) \<subseteq> set s"
  by (auto simp: path_parse_name_def name_of_scan_def slice_def dest: in_set_takeD in_set_dropD)

lemma ascii_lowered:
  assumes "is_ascii s"
  shows "\<forall>c\<in>set (normalize_NFKD (toLowerCase (path_parse_name s))). \<not> is_upper c"
proof -
  have a: "\<forall>c\<in>set (path_parse_name s). c < 128"
    using assms set_path_parse_name[of s] by (auto simp: is_ascii_def list_all_iff)
  have b: "\<forall>c\<in>set (toLowerCase (path_parse_name s)). c < 160 \<and> \<not> is_upper c"
    using a by (auto simp: toLowerCase_def toLowerCase_unit_def is_upper_def)
  have "normalize_NFKD (toLowerCase (path_parse_name s)) = toLowerCase (path_parse_name s)"
    using b by (intro nfkd_id) auto
  with b show ?thesis by simp
qed

lemma ascii_slug_lower:
  assumes "is_ascii s"
  shows "list_all lower_slug_unit (slugify (normalize_NFKD (toLowerCase (path_parse_name s))))"
proof -
  let ?x = "normalize_NFKD (toLowerCase (path_parse_name s))"
  have "\<forall>c\<in>set (slugify ?x). \<not> is_upper c"
    using ascii_lowered[OF assms] set_slugify[of ?x] by (auto simp: is_upper_def HYPHEN_def)
  moreover have "\<forall>c\<in>set (slugify ?x). slug_unit c"
    using slugify_units[of ?x] by (simp add: list_all_iff)
  ultimately show ?thesis
    by (auto simp: list_all_iff slug_unit_def lower_slug_unit_def is_word_def)
qed

lemma stripExtension_generated: "stripExtension (y @ js ''.mdx'') = y"
  by (simp add: stripExtension_def js_def)

lemmas slug_eval =
  js_def generateSafeFilename_def slugify_def path_parse_name_def name_of_scan_def mark_dot_def
  mark_end_def slice_def toLowerCase_def toLowerCase_unit_def normalize_NFKD_def nfkd_unit_def
  remove_special_def trim_def strip_edge_hyphens_def strip_trailing_hyphen_def stripExtension_def
  matches_pattern_def is_word_def is_space_def is_upper_def is_lower_def is_digit_def HYPHEN_def

text \<open>
  C4, as stated, fails: \<open>\w\<close> keeps the underscore, so \<open>a_b.txt\<close> becomes \<open>a_b.mdx\<close>,
  which \<open>^[a-z0-9-]*\.mdx$\<close> does not match.
\<close>

theorem generateSafeFilename_underscore_counterexample:
  "generateSafeFilename (js ''a_b.txt'') = js ''a_b.mdx''
   \<and> \<not> matches_pattern claimed_unit (generateSafeFilename (js ''a_b.txt''))"
  by (simp add: slug_eval claimed_unit_def)

text \<open>
  C4, amended: for every input string the generated name is a slug over \<open>[A-Za-z0-9_-]\<close>
  followed by \<open>.mdx\<close>, and the slug has no hyphen at either end; for an ASCII input
  the slug has no capital letter, so the name matches \<open>^[a-z0-9_-]*\.mdx$\<close>.
\<close>

theorem generateSafeFilename_pattern:
  "matches_pattern slug_unit (generateSafeFilename s)
   \<and> no_edge_hyphen (stripExtension (generateSafeFilename s))
   \<and> (is_ascii s \<longrightarrow> matches_pattern lower_slug_unit (generateSafeFilename s))"
proof -
  let ?y = "slugify (normalize_NFKD (toLowerCase (path_parse_name s)))"
  have g: "generateSafeFilename s = ?y @ js ''.mdx''"
    by (simp add: generateSafeFilename_def)
  have tail: "drop (length ?y) (?y @ js ''.mdx'') = js ''.mdx''" by simp
  have m: "list_all cls ?y \<Longrightarrow> matches_pattern cls (generateSafeFilename s)" for cls
    unfolding matches_pattern_def g stripExtension_generated
    by (simp add: js_def)
  show ?thesis
    using m[OF slugify_units] m[OF ascii_slug_lower] slugify_no_edge[of "normalize_NFKD (toLowerCase (path_parse_name s))"]
    by (simp add: g stripExtension_generated)
qed

theorem generateSafeFilename_pattern_witness:
  "is_ascii (js ''  My File_v2 -- final!.txt'')
   \<and> matches_pattern lower_slug_unit (generateSafeFilename (js ''  My File_v2 -- final!.txt''))
   \<and> generateSafeFilename (js ''  My File_v2 -- final!.txt'') = js ''my-file_v2-final.mdx''"
proof -
  have a: "is_ascii (js ''  My File_v2 -- final!.txt'')"
    by (simp add: is_ascii_def js_def)
  have v: "generateSafeFilename (js ''  My File_v2 -- final!.txt'') = js ''my-file_v2-final.mdx''"
    by (simp add: slug_eval)
  from generateSafeFilename_pattern[of "js ''  My File_v2 -- final!.txt''"] a v
  show ?thesis by blast
qed

text \<open>
  On ASCII input the generated name has no capital letter, and a name without capital
  letter is generated again from itself.
\<close>

lemma generateSafeFilename_fixed_on_ascii:
  "(\<not> list_ex is_upper (generateSafeFilename s)
      \<longrightarrow> generateSafeFilename (stripExtension (generateSafeFilename s)) = generateSafeFilename s)
   \<and> (is_ascii s \<longrightarrow> \<not> list_ex is_upper (generateSafeFilename s))"
proof (intro conjI impI)
  let ?y = "slugify (normalize_NFKD (toLowerCase (path_parse_name s)))"
  have g: "generateSafeFilename s = ?y @ js ''.mdx''"
    by (simp add: generateSafeFilename_def)
  have ext: "\<not> list_ex is_upper (js ''.mdx'')"
    by (simp add: js_def is_upper_def)
  {
    assume "\<not> list_ex is_upper (generateSafeFilename s)"
    then have "\<forall>c\<in>set ?y. \<not> is_upper c" by (simp add: g list_ex_iff)
    moreover have "\<forall>c\<in>set ?y. slug_unit c"
      using slugify_units[of "normalize_NFKD (toLowerCase (path_parse_name s))"]
      by (simp add: list_all_iff)
    ultimately have "list_all lower_slug_unit ?y"
      by (auto simp: list_all_iff slug_unit_def lower_slug_unit_def is_word_def)
    then have "generateSafeFilename ?y = ?y @ js ''.mdx''"
      using slugify_no_double slugify_no_edge by (rule slug_fixed)
    then show "generateSafeFilename (stripExtension (generateSafeFilename s)) = generateSafeFilename s"
      by (simp add: g stripExtension_generated)
  }
  {
    assume "is_ascii s"
    then have "\<forall>c\<in>set ?y. \<not> is_upper c"
      using ascii_slug_lower[of s]
      by (auto simp: list_all_iff lower_slug_unit_def is_upper_def is_lower_def is_digit_def HYPHEN_def)
    then show "\<not> list_ex is_upper (generateSafeFilename s)"
      using ext by (auto simp: g list_ex_iff)
  }
qed

text \<open>
  C8 against the code: \<open>toLowerCase()\<close> is called before \<open>normalize('NFKD')\<close>, so a
  capital letter that the normalisation produces is never lower-cased. U+210C has no
  lower-case form and decomposes to the capital \<open>H\<close>: the name generated from it is
  \<open>H.mdx\<close>, and the name generated from \<open>H\<close> is \<open>h.mdx\<close>. Generating a name from a
  generated name without its extension does not give the same name.
\<close>

theorem generateSafeFilename_not_idempotent:
  "generateSafeFilename [8460] = js ''H.mdx''
   \<and> stripExtension (generateSafeFilename [8460]) = js ''H''
   \<and> generateSafeFilename (stripExtension (generateSafeFilename [8460])) = js ''h.mdx''
   \<and> generateSafeFilename (stripExtension (generateSafeFilename [8460])) \<noteq> generateSafeFilename [8460]"
  by (simp add: slug_eval)

section \<open>Properties of the retry loop\<close>

declare generateWithRetry_loop.simps [simp del]

lemma attempt_once_gen_log:
  "gen_log (snd (attempt_once ext p m w)) = gen_log w @ [request_of ext p m w]"
  by (simp add: attempt_once_def getNextGemini_def call_generateContent_def sleep_def request_of_def
      split: prod.splits sum.splits)

lemma attempt_once_result:
  "fst (attempt_once ext p m w) =
     (case generateContent ext (length (gen_log w)) (request_of ext p m w) of
        Inl e \<Rightarrow> Inl e
      | Inr t \<Rightarrow> if falsy t then Inl (Error ''Empty response'') else Inr (the t))"
  by (cases "generateContent ext (length (gen_log w)) (request_of ext p m w)")
    (auto simp: attempt_once_def getNextGemini_def call_generateContent_def sleep_def
      request_of_def)

lemma attempt_once_fails:
  "gen_fails (generateContent ext (length (gen_log w)) (request_of ext p m w)) \<Longrightarrow>
   fst (attempt_once ext p m w) = Inl (thrown_by (generateContent ext (length (gen_log w)) (request_of ext p m w)))"
  by (auto simp: attempt_once_result gen_fails_def thrown_by_def split: sum.splits)

lemma attempt_once_succeeds:
  "generateContent ext (length (gen_log w)) (request_of ext p m w) = Inr (Some text) \<Longrightarrow> text \<noteq> [] \<Longrightarrow>
   fst (attempt_once ext p m w) = Inr text"
  by (simp add: attempt_once_result falsy_def)

lemma after_failure_gen_log: "gen_log (after_failure a e w) = gen_log w"
  by (simp add: after_failure_def sleep_def console_log_def)

lemma loop_bound:
  "length (gen_log (snd (generateWithRetry_loop ext p m attempt w)))
     \<le> length (gen_log w) + (MAX_RETRIES - attempt)"
proof (induction ext p m attempt w rule: generateWithRetry_loop.induct)
  case (1 ext p m attempt w)
  show ?case
  proof (cases "attempt < MAX_RETRIES")
    case False
    then show ?thesis by (subst generateWithRetry_loop.simps) simp
  next
    case True
    obtain r w' where a: "attempt_once ext p m w = (r, w')" by (cases "attempt_once ext p m w")
    have gl: "gen_log w' = gen_log w @ [request_of ext p m w]"
      using attempt_once_gen_log[of ext p m w] a by simp
    show ?thesis
    proof (cases r)
      case (Inr t)
      with True a gl show ?thesis by (subst generateWithRetry_loop.simps) simp
    next
      case (Inl e)
      show ?thesis
      proof (cases "attempt + 1 \<ge> MAX_RETRIES")
        case True
        with \<open>attempt < MAX_RETRIES\<close> a gl Inl show ?thesis
          by (subst generateWithRetry_loop.simps) (simp add: after_failure_gen_log)
      next
        case False
        have "length (gen_log (snd (generateWithRetry_loop ext p m (attempt + 1) (after_failure (attempt + 1) e w'))))
                \<le> length (gen_log (after_failure (attempt + 1) e w')) + (MAX_RETRIES - (attempt + 1))"
          using "1.IH"[OF True a[symmetric] Inl False] .
        with \<open>attempt < MAX_RETRIES\<close> a gl Inl False show ?thesis
          by (subst generateWithRetry_loop.simps) (simp add: after_failure_gen_log)
      qed
    qed
  qed
qed

lemma loop_success:
  "attempt + k < MAX_RETRIES \<Longrightarrow>
   \<forall>i<k. \<forall>key. gen_fails (generateContent ext (length (gen_log w) + i)
                     \<lparr>req_apiKey = key, req_model = m, req_contents = p\<rparr>) \<Longrightarrow>
   \<forall>key. generateContent ext (length (gen_log w) + k)
           \<lparr>req_apiKey = key, req_model = m, req_contents = p\<rparr> = Inr (Some text) \<Longrightarrow>
   text \<noteq> [] \<Longrightarrow>
   fst (generateWithRetry_loop ext p m attempt w) = Inr (Some text)
   \<and> length (gen_log (snd (generateWithRetry_loop ext p m attempt w))) = length (gen_log w) + k + 1"
proof (induction k arbitrary: attempt w)
  case 0
  obtain r w' where a: "attempt_once ext p m w = (r, w')" by (cases "attempt_once ext p m w")
  have "r = Inr text"
    using attempt_once_succeeds[of ext w p m] 0 a by (simp add: request_of_def)
  moreover have "gen_log w' = gen_log w @ [request_of ext p m w]"
    using attempt_once_gen_log[of ext p m w] a by simp
  ultimately show ?case using 0(1) a
    by (subst (1 2) generateWithRetry_loop.simps) simp
next
  case (Suc k)
  obtain r w' where a: "attempt_once ext p m w = (r, w')" by (cases "attempt_once ext p m w")
  have f: "gen_fails (generateContent ext (length (gen_log w)) (request_of ext p m w))"
    using Suc.prems(2)[rule_format, of 0] by (simp add: request_of_def)
  have r: "r = Inl (thrown_by (generateContent ext (length (gen_log w)) (request_of ext p m w)))"
    using attempt_once_fails[OF f] a by simp
  let ?e = "thrown_by (generateContent ext (length (gen_log w)) (request_of ext p m w))"
  let ?w = "after_failure (attempt + 1) ?e w'"
  have gl: "gen_log ?w = gen_log w @ [request_of ext p m w]"
    using attempt_once_gen_log[of ext p m w] a by (simp add: after_failure_gen_log)
  have ih: "fst (generateWithRetry_loop ext p m (attempt + 1) ?w) = Inr (Some text)
            \<and> length (gen_log (snd (generateWithRetry_loop ext p m (attempt + 1) ?w)))
                = length (gen_log ?w) + k + 1"
  proof (rule Suc.IH)
    show "attempt + 1 + k < MAX_RETRIES" using Suc.prems(1) by simp
    show "\<forall>i<k. \<forall>key. gen_fails (generateContent ext (length (gen_log ?w) + i)
                     \<lparr>req_apiKey = key, req_model = m, req_contents = p\<rparr>)"
      using Suc.prems(2) gl by (auto simp: less_Suc_eq_0_disj)
    show "\<forall>key. generateContent ext (length (gen_log ?w) + k)
           \<lparr>req_apiKey = key, req_model = m, req_contents = p\<rparr> = Inr (Some text)"
      using Suc.prems(3) gl by simp
    show "text \<noteq> []" by fact
  qed
  have step: "generateWithRetry_loop ext p m attempt w = generateWithRetry_loop ext p m (attempt + 1) ?w"
    using Suc.prems(1) a r by (subst generateWithRetry_loop.simps) simp
  show ?case using ih gl by (simp add: step)
qed

lemma loop_exhaust:
  "attempt < MAX_RETRIES \<Longrightarrow>
   \<forall>i<MAX_RETRIES - attempt. \<forall>key. gen_fails (generateContent ext (length (gen_log w) + i)
                     \<lparr>req_apiKey = key, req_model = m, req_contents = p\<rparr>) \<Longrightarrow>
   fst (generateWithRetry_loop ext p m attempt w)
     = Inl (thrown_by (generateContent ext (length (gen_log w) + (MAX_RETRIES - attempt) - 1)
                        (last (gen_log (snd (generateWithRetry_loop ext p m attempt w))))))
   \<and> length (gen_log (snd (generateWithRetry_loop ext p m attempt w)))
       = length (gen_log w) + (MAX_RETRIES - attempt)"
proof (induction ext p m attempt w rule: generateWithRetry_loop.induct)
  case (1 ext p m attempt w)
  obtain r w' where a: "attempt_once ext p m w = (r, w')" by (cases "attempt_once ext p m w")
  have f: "gen_fails (generateContent ext (length (gen_log w)) (request_of ext p m w))"
    using "1.prems"(2)[rule_format, of 0] "1.prems"(1) by (simp add: request_of_def)
  let ?e = "thrown_by (generateContent ext (length (gen_log w)) (request_of ext p m w))"
  have r: "r = Inl ?e"
    using attempt_once_fails[OF f] a by simp
  let ?w = "after_failure (attempt + 1) ?e w'"
  have gl: "gen_log ?w = gen_log w @ [request_of ext p m w]"
    using attempt_once_gen_log[of ext p m w] a by (simp add: after_failure_gen_log)
  show ?case
  proof (cases "attempt + 1 \<ge> MAX_RETRIES")
    case True
    then have last: "MAX_RETRIES - attempt = 1" using "1.prems"(1) by simp
    have "generateWithRetry_loop ext p m attempt w = (Inl ?e, ?w)"
      using "1.prems"(1) True a r by (subst generateWithRetry_loop.simps) simp
    then show ?thesis using gl last by simp
  next
    case False
    have step: "generateWithRetry_loop ext p m attempt w
                 = generateWithRetry_loop ext p m (attempt + 1) ?w"
      using "1.prems"(1) False a r by (subst generateWithRetry_loop.simps) simp
    have ih: "fst (generateWithRetry_loop ext p m (attempt + 1) ?w)
               = Inl (thrown_by (generateContent ext
                        (length (gen_log ?w) + (MAX_RETRIES - (attempt + 1)) - 1)
                        (last (gen_log (snd (generateWithRetry_loop ext p m (attempt + 1) ?w))))))
              \<and> length (gen_log (snd (generateWithRetry_loop ext p m (attempt + 1) ?w)))
                  = length (gen_log ?w) + (MAX_RETRIES - (attempt + 1))"
    proof (rule "1.IH"[OF "1.prems"(1) a[symmetric] r False])
      show "attempt + 1 < MAX_RETRIES" using False by simp
      show "\<forall>i<MAX_RETRIES - (attempt + 1). \<forall>key.
              gen_fails (generateContent ext (length (gen_log ?w) + i)
                \<lparr>req_apiKey = key, req_model = m, req_contents = p\<rparr>)"
      proof (intro allI impI)
        fix i key
        assume "i < MAX_RETRIES - (attempt + 1)"
        then have "Suc i < MAX_RETRIES - attempt" by simp
        from "1.prems"(2)[rule_format, OF this, of key] gl show
          "gen_fails (generateContent ext (length (gen_log ?w) + i)
                \<lparr>req_apiKey = key, req_model = m, req_contents = p\<rparr>)"
          by simp
      qed
    qed
    have "length (gen_log ?w) + (MAX_RETRIES - (attempt + 1)) = length (gen_log w) + (MAX_RETRIES - attempt)"
      using False gl by simp
    with ih show ?thesis by (simp add: step)
  qed
qed

lemmas retry_eval =
  generateWithRetry_def generateWithRetry_loop.simps attempt_once_def getNextGemini_def
  call_generateContent_def after_failure_def sleep_def console_log_def at_index_def falsy_def
  MAX_RETRIES_def REQUEST_DELAY_def

lemma apiKeys_demo_ext: "apiKeys demo_ext = [js ''key-a'', js ''key-b'']"
  by (simp add: apiKeys_def demo_ext_def startsWith_def falsy_def js_def)

lemma apiKeys_flaky_ext: "apiKeys (flaky_ext k) = [js ''key-a'', js ''key-b'']"
  using apiKeys_demo_ext by (simp add: apiKeys_def flaky_ext_def)

text \<open>
  C1: \<open>generateWithRetry\<close> sends at most \<open>MAX_RETRIES = 5\<close> requests to the generation
  service. If the first \<open>k < MAX_RETRIES\<close> answers are failures (an error or no text) and
  the next one carries the text \<open>t\<close>, it returns \<open>t\<close> after exactly \<open>k + 1\<close>
  requests. If the first \<open>MAX_RETRIES\<close> answers are failures, it throws the error of the
  last attempt after exactly \<open>MAX_RETRIES\<close> requests and returns nothing.
\<close>

theorem generateWithRetry_upstream_calls:
  "MAX_RETRIES = 5
   \<and> length (gen_log (snd (generateWithRetry ext p m w))) \<le> length (gen_log w) + MAX_RETRIES
   \<and> (k < MAX_RETRIES
        \<and> (\<forall>i<k. \<forall>key. gen_fails (generateContent ext (length (gen_log w) + i)
                            \<lparr>req_apiKey = key, req_model = m, req_contents = p\<rparr>))
        \<and> (\<forall>key. generateContent ext (length (gen_log w) + k)
                    \<lparr>req_apiKey = key, req_model = m, req_contents = p\<rparr> = Inr (Some t))
        \<and> t \<noteq> []
       \<longrightarrow> fst (generateWithRetry ext p m w) = Inr (Some t)
           \<and> length (gen_log (snd (generateWithRetry ext p m w))) = length (gen_log w) + k + 1)
   \<and> ((\<forall>i<MAX_RETRIES. \<forall>key. gen_fails (generateContent ext (length (gen_log w) + i)
                            \<lparr>req_apiKey = key, req_model = m, req_contents = p\<rparr>))
       \<longrightarrow> fst (generateWithRetry ext p m w)
             = Inl (thrown_by (generateContent ext (length (gen_log w) + MAX_RETRIES - 1)
                                (last (gen_log (snd (generateWithRetry ext p m w))))))
           \<and> length (gen_log (snd (generateWithRetry ext p m w)))
               = length (gen_log w) + MAX_RETRIES)"
proof (intro conjI impI)
  show "MAX_RETRIES = 5" by (simp add: MAX_RETRIES_def)
  show "length (gen_log (snd (generateWithRetry ext p m w))) \<le> length (gen_log w) + MAX_RETRIES"
    using loop_bound[of ext p m 0 w] by (simp add: generateWithRetry_def)
next
  assume a: "k < MAX_RETRIES
        \<and> (\<forall>i<k. \<forall>key. gen_fails (generateContent ext (length (gen_log w) + i)
                            \<lparr>req_apiKey = key, req_model = m, req_contents = p\<rparr>))
        \<and> (\<forall>key. generateContent ext (length (gen_log w) + k)
                    \<lparr>req_apiKey = key, req_model = m, req_contents = p\<rparr> = Inr (Some t))
        \<and> t \<noteq> []"
  then have "fst (generateWithRetry_loop ext p m 0 w) = Inr (Some t)
   \<and> length (gen_log (snd (generateWithRetry_loop ext p m 0 w))) = length (gen_log w) + k + 1"
    by (intro loop_success) simp_all
  then show "fst (generateWithRetry ext p m w) = Inr (Some t)"
    and "length (gen_log (snd (generateWithRetry ext p m w))) = length (gen_log w) + k + 1"
    by (simp_all add: generateWithRetry_def)
next
  assume a: "\<forall>i<MAX_RETRIES. \<forall>key. gen_fails (generateContent ext (length (gen_log w) + i)
                            \<lparr>req_apiKey = key, req_model = m, req_contents = p\<rparr>)"
  have "0 < MAX_RETRIES" by (simp add: MAX_RETRIES_def)
  from loop_exhaust[OF this, of ext w m p] a
  show "fst (generateWithRetry ext p m w)
             = Inl (thrown_by (generateContent ext (length (gen_log w) + MAX_RETRIES - 1)
                                (last (gen_log (snd (generateWithRetry ext p m w))))))"
    and "length (gen_log (snd (generateWithRetry ext p m w))) = length (gen_log w) + MAX_RETRIES"
    by (simp_all add: generateWithRetry_def)
qed

theorem generateWithRetry_upstream_calls_witness:
  "(2::nat) < MAX_RETRIES
   \<and> fst (generateWithRetry (flaky_ext 2) (js ''p'') (js ''m'') initial_world)
       = Inr (Some (js ''generated''))
   \<and> length (gen_log (snd (generateWithRetry (flaky_ext 2) (js ''p'') (js ''m'') initial_world))) = 3
   \<and> fst (generateWithRetry (flaky_ext 9) (js ''p'') (js ''m'') initial_world)
       = Inl \<lparr>message = js ''Too Many Requests'', response_status = Some 429\<rparr>
   \<and> length (gen_log (snd (generateWithRetry (flaky_ext 9) (js ''p'') (js ''m'') initial_world))) = 5"
proof -
  have h1: "(2::nat) < MAX_RETRIES" by (simp add: MAX_RETRIES_def)
  have h2: "\<forall>i<2. \<forall>key. gen_fails (generateContent (flaky_ext 2) (length (gen_log initial_world) + i)
                       \<lparr>req_apiKey = key, req_model = js ''m'', req_contents = js ''p''\<rparr>)"
    by (simp add: flaky_ext_def demo_ext_def gen_fails_def initial_world_def)
  have h3: "\<forall>key. generateContent (flaky_ext 2) (length (gen_log initial_world) + 2)
               \<lparr>req_apiKey = key, req_model = js ''m'', req_contents = js ''p''\<rparr>
             = Inr (Some (js ''generated''))"
    by (simp add: flaky_ext_def demo_ext_def initial_world_def)
  have h4: "js ''generated'' \<noteq> []" by (simp add: js_def)
  have h5: "\<forall>i<MAX_RETRIES. \<forall>key. gen_fails (generateContent (flaky_ext 9) (length (gen_log initial_world) + i)
                       \<lparr>req_apiKey = key, req_model = js ''m'', req_contents = js ''p''\<rparr>)"
    by (simp add: flaky_ext_def demo_ext_def gen_fails_def initial_world_def MAX_RETRIES_def)
  have t: "\<And>i r. thrown_by (generateContent (flaky_ext 9) (0 + MAX_RETRIES - 1) r)
             = \<lparr>message = js ''Too Many Requests'', response_status = Some 429\<rparr>"
    by (simp add: flaky_ext_def demo_ext_def thrown_by_def MAX_RETRIES_def)
  have l: "length (gen_log initial_world) = 0" by (simp add: initial_world_def)
  note A = generateWithRetry_upstream_calls[of "flaky_ext 2" "js ''p''" "js ''m''" initial_world 2 "js ''generated''"]
  note B = generateWithRetry_upstream_calls[of "flaky_ext 9" "js ''p''" "js ''m''" initial_world 0 "[]"]
  have a: "fst (generateWithRetry (flaky_ext 2) (js ''p'') (js ''m'') initial_world)
             = Inr (Some (js ''generated''))
           \<and> length (gen_log (snd (generateWithRetry (flaky_ext 2) (js ''p'') (js ''m'') initial_world)))
               = length (gen_log initial_world) + 2 + 1"
    using A h1 h2 h3 h4 by blast
  have b: "fst (generateWithRetry (flaky_ext 9) (js ''p'') (js ''m'') initial_world)
             = Inl (thrown_by (generateContent (flaky_ext 9) (length (gen_log initial_world) + MAX_RETRIES - 1)
                    (last (gen_log (snd (generateWithRetry (flaky_ext 9) (js ''p'') (js ''m'') initial_world))))))
           \<and> length (gen_log (snd (generateWithRetry (flaky_ext 9) (js ''p'') (js ''m'') initial_world)))
               = length (gen_log initial_world) + MAX_RETRIES"
    using B h5 by blast
  have b1: "fst (generateWithRetry (flaky_ext 9) (js ''p'') (js ''m'') initial_world)
       = Inl \<lparr>message = js ''Too Many Requests'', response_status = Some 429\<rparr>"
    using b by (simp only: l t)
  have b2: "length (gen_log (snd (generateWithRetry (flaky_ext 9) (js ''p'') (js ''m'') initial_world))) = 5"
    using b by (simp add: l MAX_RETRIES_def)
  have a2: "length (gen_log (snd (generateWithRetry (flaky_ext 2) (js ''p'') (js ''m'') initial_world))) = 3"
    using a by (simp add: l)
  from h1 a a2 b1 b2 show ?thesis by blast
qed

section \<open>Properties of the rotation\<close>

lemma getNextGemini_step:
  "keyIndex (snd (getNextGemini ext w)) = (keyIndex w + 1) mod length (apiKeys ext)"
  by (simp add: getNextGemini_def)

lemma getNextGemini_times_general:
  "apiKeys ext \<noteq> [] \<Longrightarrow> keyIndex w < length (apiKeys ext) \<Longrightarrow>
   fst (getNextGemini_times ext n w)
     = map (\<lambda>i. Some (apiKeys ext ! ((keyIndex w + i) mod length (apiKeys ext)))) [0..<n]
   \<and> keyIndex (snd (getNextGemini_times ext n w)) = (keyIndex w + n) mod length (apiKeys ext)"
proof (induction n arbitrary: w)
  case 0
  then show ?case by simp
next
  case (Suc n)
  let ?k = "length (apiKeys ext)"
  let ?w = "snd (getNextGemini ext w)"
  have k: "0 < ?k" using Suc.prems(1) by simp
  have key: "fst (getNextGemini ext w) = Some (apiKeys ext ! (keyIndex w mod ?k))"
    using Suc.prems(2) by (simp add: getNextGemini_def at_index_def)
  have idx: "keyIndex ?w = (keyIndex w + 1) mod ?k" by (rule getNextGemini_step)
  then have "keyIndex ?w < ?k" using k by simp
  from Suc.IH[OF Suc.prems(1) this]
  have ih: "fst (getNextGemini_times ext n ?w)
              = map (\<lambda>i. Some (apiKeys ext ! ((keyIndex ?w + i) mod ?k))) [0..<n]"
    and ih2: "keyIndex (snd (getNextGemini_times ext n ?w)) = (keyIndex ?w + n) mod ?k"
    by simp_all
  have shift: "(keyIndex ?w + i) mod ?k = (keyIndex w + Suc i) mod ?k" for i
    unfolding idx by (simp add: mod_add_left_eq)
  have "fst (getNextGemini_times ext (Suc n) w)
          = fst (getNextGemini ext w) # fst (getNextGemini_times ext n ?w)"
    by (simp split: prod.splits)
  also have "\<dots> = map (\<lambda>i. Some (apiKeys ext ! ((keyIndex w + i) mod ?k))) [0..<Suc n]"
    unfolding key ih shift by (simp add: map_upt_Suc del: upt_Suc)
  finally have 1: "fst (getNextGemini_times ext (Suc n) w)
          = map (\<lambda>i. Some (apiKeys ext ! ((keyIndex w + i) mod ?k))) [0..<Suc n]" .
  have "keyIndex (snd (getNextGemini_times ext (Suc n) w))
          = keyIndex (snd (getNextGemini_times ext n ?w))"
    by (simp split: prod.splits)
  also have "\<dots> = (keyIndex w + Suc n) mod ?k"
    unfolding ih2 shift ..
  finally show ?case using 1 by blast
qed

text \<open>
  C3: with \<open>k \<ge> 1\<close> credentials and the cursor at its initial value, the \<open>n\<close>-th call
  of \<open>getNextGemini\<close> (\<open>n \<ge> 1\<close>) returns \<open>apiKeys[(n - 1) mod k]\<close>; after \<open>n\<close> calls
  the cursor is \<open>n mod k\<close>, which is below \<open>k\<close>, and one more call moves it on by one
  modulo \<open>k\<close>.
\<close>

theorem getNextGemini_round_robin:
  assumes "apiKeys ext \<noteq> []" and "keyIndex w = 0" and "1 \<le> n"
  shows "fst (getNextGemini_times ext n w) ! (n - 1)
           = Some (apiKeys ext ! ((n - 1) mod length (apiKeys ext)))
         \<and> keyIndex (snd (getNextGemini_times ext n w)) = n mod length (apiKeys ext)
         \<and> keyIndex (snd (getNextGemini_times ext n w)) < length (apiKeys ext)
         \<and> keyIndex (snd (getNextGemini ext (snd (getNextGemini_times ext n w))))
             = (keyIndex (snd (getNextGemini_times ext n w)) + 1) mod length (apiKeys ext)"
proof -
  have k: "keyIndex w < length (apiKeys ext)" using assms by simp
  note g = getNextGemini_times_general[OF assms(1) k, of n]
  have "fst (getNextGemini_times ext n w) ! (n - 1)
          = Some (apiKeys ext ! ((n - 1) mod length (apiKeys ext)))"
    using g assms(2,3) by simp
  moreover have "keyIndex (snd (getNextGemini_times ext n w)) = n mod length (apiKeys ext)"
    using g assms(2) by simp
  moreover have "n mod length (apiKeys ext) < length (apiKeys ext)"
    using assms(1) by simp
  ultimately show ?thesis using getNextGemini_step by simp
qed

theorem getNextGemini_round_robin_witness:
  "apiKeys demo_ext \<noteq> [] \<and> keyIndex initial_world = 0 \<and> (1::nat) \<le> 5
   \<and> fst (getNextGemini_times demo_ext 5 initial_world) ! 4 = Some (js ''key-a'')
   \<and> keyIndex (snd (getNextGemini_times demo_ext 5 initial_world)) = 1"
proof -
  have h1: "apiKeys demo_ext \<noteq> []" by (simp add: apiKeys_demo_ext)
  have h2: "keyIndex initial_world = 0" by (simp add: initial_world_def)
  have h3: "(1::nat) \<le> 5" by simp
  have k: "length (apiKeys demo_ext) = 2" by (simp add: apiKeys_demo_ext)
  have a: "apiKeys demo_ext ! 0 = js ''key-a''" by (simp add: apiKeys_demo_ext)
  from getNextGemini_round_robin[OF h1 h2 h3] h1 h2
  show ?thesis unfolding k by (simp add: a)
qed

section \<open>Properties of processFile\<close>

text \<open>
  \<open>generateWithRetry\<close> and the prompt fetch touch neither the output directory nor the
  status of any file record.
\<close>

lemma generateWithRetry_loop_keeps:
  "put_log (snd (generateWithRetry_loop ext p m a w)) = put_log w
   \<and> dir_files (snd (generateWithRetry_loop ext p m a w)) = dir_files w
   \<and> write_log (snd (generateWithRetry_loop ext p m a w)) = write_log w"
proof (induction ext p m a w rule: generateWithRetry_loop.induct)
  case (1 ext p m attempt w)
  obtain r w' where a: "attempt_once ext p m w = (r, w')" by (cases "attempt_once ext p m w")
  have k: "put_log w' = put_log w \<and> dir_files w' = dir_files w \<and> write_log w' = write_log w"
    using a by (auto simp: attempt_once_def getNextGemini_def call_generateContent_def sleep_def
        split: prod.splits sum.splits if_splits)
  have af: "\<And>n e. put_log (after_failure n e w') = put_log w'
      \<and> dir_files (after_failure n e w') = dir_files w'
      \<and> write_log (after_failure n e w') = write_log w'"
    by (simp add: after_failure_def sleep_def console_log_def)
  show ?case
  proof (cases "attempt < MAX_RETRIES")
    case False
    then show ?thesis by (subst (1 2 3) generateWithRetry_loop.simps) simp
  next
    case True
    show ?thesis
    proof (cases r)
      case (Inr t)
      with True a k show ?thesis by (subst (1 2 3) generateWithRetry_loop.simps) simp
    next
      case (Inl e)
      show ?thesis
      proof (cases "attempt + 1 \<ge> MAX_RETRIES")
        case True
        with \<open>attempt < MAX_RETRIES\<close> a k af Inl show ?thesis
          by (subst (1 2 3) generateWithRetry_loop.simps) simp
      next
        case False
        from "1.IH"[OF True a[symmetric] Inl False] k af
        have "put_log (snd (generateWithRetry_loop ext p m (attempt + 1) (after_failure (attempt + 1) e w'))) = put_log w
              \<and> dir_files (snd (generateWithRetry_loop ext p m (attempt + 1) (after_failure (attempt + 1) e w'))) = dir_files w
              \<and> write_log (snd (generateWithRetry_loop ext p m (attempt + 1) (after_failure (attempt + 1) e w'))) = write_log w"
          by simp
        with \<open>attempt < MAX_RETRIES\<close> a Inl False show ?thesis
          by (subst (1 2 3) generateWithRetry_loop.simps) simp
      qed
    qed
  qed
qed

lemma after_fetch_keeps:
  "put_log (after_fetch ext file w) = put_log w" "dir_files (after_fetch ext file w) = dir_files w"
  "write_log (after_fetch ext file w) = write_log w"
  by (simp_all add: after_fetch_def axios_get_def console_log_def)

lemma generation_keeps:
  "put_log (snd (generation ext file m d w)) = put_log w"
  "dir_files (snd (generation ext file m d w)) = dir_files w"
  "write_log (snd (generation ext file m d w)) = write_log w"
  using generateWithRetry_loop_keeps[of ext "promptText_of ext d" m 0 "after_fetch ext file w"]
  by (simp_all add: generation_def generateWithRetry_def after_fetch_keeps)

lemma processFile_unfold:
  "processFile ext file m w =
     (case http_get ext (length (get_log w)) (secureUrl file) of
        Inl e \<Rightarrow>
          (\<lparr>success = False, name = originalFilename file, error = Some (message e)\<rparr>,
           console_log (Failed (originalFilename file) (message e)) (after_fetch ext file w))
      | Inr d \<Rightarrow>
          (case generation ext file m d w of
             (Inl e, wg) \<Rightarrow>
               (\<lparr>success = False, name = originalFilename file, error = Some (message e)\<rparr>,
                console_log (Failed (originalFilename file) (message e)) wg)
           | (Inr c, wg) \<Rightarrow>
               (case written ext file c wg of
                  (Some e, ww) \<Rightarrow>
                    (\<lparr>success = False, name = originalFilename file, error = Some (message e)\<rparr>,
                     console_log (Failed (originalFilename file) (message e)) ww)
                | (None, ww) \<Rightarrow>
                    (case axios_put ext (status_url file) (status_body ext ww) ww of
                       (Some e, wp) \<Rightarrow>
                         (\<lparr>success = False, name = originalFilename file, error = Some (message e)\<rparr>,
                          console_log (Failed (originalFilename file) (message e)) wp)
                     | (None, wp) \<Rightarrow>
                         (\<lparr>success = True, name = generateSafeFilename (originalFilename file),
                           error = None\<rparr>,
                          console_log (Done (generateSafeFilename (originalFilename file))) wp)))))"
  by (simp add: processFile_def processFile_try_def persist_and_report_def report_status_def
      after_fetch_def generation_def written_def status_url_def status_body_def axios_get_def
      console_log_def
      split: sum.splits prod.splits option.splits)

lemma written_cases:
  "put_log (snd (written ext file c w)) = put_log w
   \<and> (case fst (written ext file c w) of
        None \<Rightarrow> (\<exists>content. c = Some content
                   \<and> dir_files (snd (written ext file c w))
                       = AList.update (generateSafeFilename (originalFilename file)) content (dir_files w))
      | Some e \<Rightarrow>
          (case c of
             None \<Rightarrow> dir_files (snd (written ext file c w)) = dir_files w
           | Some content \<Rightarrow>
               (\<exists>left. writeFile ext (length (write_log w))
                          (generateSafeFilename (originalFilename file)) content = WriteFailed e left
                  \<and> dir_files (snd (written ext file c w))
                      = after_failed_write (generateSafeFilename (originalFilename file)) left
                          (dir_files w))))"
  by (auto simp: written_def writeFileSync_def split: option.splits write_result.splits)

lemma processFile_outcome_for: "outcome_for (fst (processFile ext file m w)) file"
  by (auto simp: processFile_unfold outcome_for_def split: sum.splits prod.splits option.splits)

text \<open>The sample configuration, evaluated.\<close>

lemma js_Nil_iff [simp]: "js s = [] \<longleftrightarrow> s = []"
  by (simp add: js_def)

lemma js_inject [simp]: "js a = js b \<longleftrightarrow> a = b"
proof -
  have "inj (of_char :: char \<Rightarrow> nat)" by (rule injI) simp
  then show ?thesis by (simp add: js_def)
qed

lemma demo_sel:
  "http_get demo_ext n url = (if url = EXTERNAL_API_URL then Inr (PFiles demo_files) else Inr (PString (js ''prompt'')))"
  "generateContent demo_ext n req = Inr (Some (js ''generated''))"
  "writeFile demo_ext n fileName content = Written"
  "http_put demo_ext n url body = None"
  "sendMail demo_ext n ml = None"
  "date_now demo_ext n = 1760000000000 + n"
  "dateTimeStr demo_ext = js ''11/3/2026, 9:00:00 AM''"
  by (simp_all add: demo_ext_def)

lemma flaky_sel:
  "http_get (flaky_ext k) = http_get demo_ext"
  "generateContent (flaky_ext k) n req
     = (if n < k then Inl \<lparr>message = js ''Too Many Requests'', response_status = Some 429\<rparr>
        else Inr (Some (js ''generated'')))"
  "writeFile (flaky_ext k) = writeFile demo_ext"
  "http_put (flaky_ext k) = http_put demo_ext"
  "date_now (flaky_ext k) = date_now demo_ext"
  by (simp_all add: flaky_ext_def)

lemma demo_urls: "secureUrl demo_file1 \<noteq> EXTERNAL_API_URL"
  by (simp add: demo_file1_def js_def EXTERNAL_API_URL_def EXTERNAL_API_BASE_def)

lemma demo_urls3: "secureUrl demo_file3 \<noteq> EXTERNAL_API_URL"
  by (simp add: demo_file3_def js_def EXTERNAL_API_URL_def EXTERNAL_API_BASE_def)

lemma demo_file1_sel:
  "originalFilename demo_file1 = js ''First Post.txt''" "file_id demo_file1 = js ''f1''"
  by (simp_all add: demo_file1_def)

lemma demo_file3_sel:
  "originalFilename demo_file3 = js ''notes_v2.md''" "file_id demo_file3 = js ''f3''"
  by (simp_all add: demo_file3_def)

lemma slug_first_post: "generateSafeFilename (js ''First Post.txt'') = js ''first-post.mdx''"
  by (simp add: slug_eval)

lemma slug_notes: "generateSafeFilename (js ''notes_v2.md'') = js ''notes_v2.mdx''"
  by (simp add: slug_eval)

lemma GEMINI_MODEL_flaky: "GEMINI_MODEL (flaky_ext k) = js ''gemini-3-flash-preview''"
  by (simp add: GEMINI_MODEL_def env_get_def flaky_ext_def demo_ext_def falsy_def)

lemma GEMINI_MODEL_demo: "GEMINI_MODEL demo_ext = js ''gemini-3-flash-preview''"
  by (simp add: GEMINI_MODEL_def env_get_def demo_ext_def falsy_def)

lemma put_fail_sel:
  "http_get put_fail_ext = http_get demo_ext"
  "generateContent put_fail_ext = generateContent demo_ext"
  "writeFile put_fail_ext = writeFile demo_ext"
  "http_put put_fail_ext n url body = Some \<lparr>message = js ''Request failed with status code 500'', response_status = Some 500\<rparr>"
  "date_now put_fail_ext = date_now demo_ext"
  "apiKeys put_fail_ext = apiKeys demo_ext"
  by (simp_all add: put_fail_ext_def apiKeys_def)

lemma write_fail_sel:
  "http_get write_fail_ext = http_get demo_ext"
  "generateContent write_fail_ext = generateContent demo_ext"
  "writeFile write_fail_ext n fileName content
     = WriteFailed \<lparr>message = js ''ENOSPC: no space left on device, write'',
                    response_status = None\<rparr> (Some [])"
  "apiKeys write_fail_ext = apiKeys demo_ext"
  by (simp_all add: write_fail_ext_def apiKeys_def)

lemma get_fail_sel:
  "http_get get_fail_ext n (secureUrl demo_file1)
     = Inl \<lparr>message = js ''Request failed with status code 404'', response_status = Some 404\<rparr>"
  using demo_urls by (simp add: get_fail_ext_def)

lemma generation_goes_through:
  assumes "generateContent ext = generateContent demo_ext"
  shows "fst (generation ext file m d w) = Inr (Some (js ''generated''))"
  unfolding generation_def generateWithRetry_def
  by (subst generateWithRetry_loop.simps)
     (simp add: MAX_RETRIES_def attempt_once_def getNextGemini_def call_generateContent_def
        assms demo_sel falsy_def split: prod.splits)

lemma generation_flaky:
  "fst (generation (flaky_ext 9) demo_file1 m d initial_world)
     = Inl \<lparr>message = js ''Too Many Requests'', response_status = Some 429\<rparr>"
  by (simp add: generation_def after_fetch_def axios_get_def retry_eval flaky_sel
      apiKeys_flaky_ext initial_world_def)

text \<open>
  C5, as stated, fails: the file is written before the status update is sent, and nothing
  removes it when that update fails. With a failing status update the item is recorded as
  failed and its content is in the output directory all the same.
\<close>

theorem processFile_put_failure_counterexample:
  "http_put put_fail_ext (length (put_log initial_world)) (status_url demo_file1)
       (status_body put_fail_ext initial_world) \<noteq> None
   \<and> \<not> success (fst (processFile put_fail_ext demo_file1 (js ''gemini-3-flash-preview'') initial_world))
   \<and> dir_files initial_world = []
   \<and> dir_files (snd (processFile put_fail_ext demo_file1 (js ''gemini-3-flash-preview'') initial_world))
       = [(js ''first-post.mdx'', js ''generated'')]"
  by (simp add: processFile_def processFile_try_def axios_get_def promptText_of_def
      persist_and_report_def writeFileSync_def report_status_def axios_put_def
      retry_eval put_fail_sel demo_sel demo_urls demo_file1_sel
      slug_first_post apiKeys_demo_ext initial_world_def)

text \<open>
  C5, amended: whichever step of \<open>processFile\<close> fails, the call returns a failure outcome
  with the original file name and the message of that step's error. When the prompt fetch
  or the generation (after its retries) fails, nothing has been written and no status update
  has been sent. When the write fails, no status update has been sent; the write was
  refused before the file was touched (no content to write), or the output directory is
  what the failed write left of it: the file of that name may have been created or
  truncated. When the status update fails, exactly that update has been sent and the
  content written just before it stays in the output directory. When no step fails, the
  outcome is a success, the content is in the output directory and the update has been
  sent.
\<close>

theorem processFile_failing_step:
  "(http_get ext (length (get_log w)) (secureUrl file) = Inl e \<longrightarrow>
      fst (processFile ext file m w)
        = \<lparr>success = False, name = originalFilename file, error = Some (message e)\<rparr>
      \<and> dir_files (snd (processFile ext file m w)) = dir_files w
      \<and> write_log (snd (processFile ext file m w)) = write_log w
      \<and> put_log (snd (processFile ext file m w)) = put_log w)
   \<and> (http_get ext (length (get_log w)) (secureUrl file) = Inr d
        \<and> fst (generation ext file m d w) = Inl e \<longrightarrow>
      fst (processFile ext file m w)
        = \<lparr>success = False, name = originalFilename file, error = Some (message e)\<rparr>
      \<and> dir_files (snd (processFile ext file m w)) = dir_files w
      \<and> write_log (snd (processFile ext file m w)) = write_log w
      \<and> put_log (snd (processFile ext file m w)) = put_log w)
   \<and> (http_get ext (length (get_log w)) (secureUrl file) = Inr d
        \<and> generation ext file m d w = (Inr c, wg)
        \<and> fst (written ext file c wg) = Some e \<longrightarrow>
      fst (processFile ext file m w)
        = \<lparr>success = False, name = originalFilename file, error = Some (message e)\<rparr>
      \<and> put_log (snd (processFile ext file m w)) = put_log w
      \<and> (case c of
            None \<Rightarrow> dir_files (snd (processFile ext file m w)) = dir_files w
          | Some content \<Rightarrow>
              (\<exists>left. writeFile ext (length (write_log w))
                         (generateSafeFilename (originalFilename file)) content = WriteFailed e left
                 \<and> dir_files (snd (processFile ext file m w))
                     = after_failed_write (generateSafeFilename (originalFilename file)) left
                         (dir_files w))))
   \<and> (http_get ext (length (get_log w)) (secureUrl file) = Inr d
        \<and> generation ext file m d w = (Inr c, wg)
        \<and> fst (written ext file c wg) = None
        \<and> http_put ext (length (put_log w)) (status_url file) (status_body ext w) = Some e \<longrightarrow>
      fst (processFile ext file m w)
        = \<lparr>success = False, name = originalFilename file, error = Some (message e)\<rparr>
      \<and> put_log (snd (processFile ext file m w)) = put_log w @ [(status_url file, status_body ext w)]
      \<and> (\<exists>content. c = Some content
            \<and> dir_files (snd (processFile ext file m w))
                = AList.update (generateSafeFilename (originalFilename file)) content (dir_files w)))
   \<and> (http_get ext (length (get_log w)) (secureUrl file) = Inr d
        \<and> generation ext file m d w = (Inr c, wg)
        \<and> fst (written ext file c wg) = None
        \<and> http_put ext (length (put_log w)) (status_url file) (status_body ext w) = None \<longrightarrow>
      fst (processFile ext file m w)
        = \<lparr>success = True, name = generateSafeFilename (originalFilename file), error = None\<rparr>
      \<and> put_log (snd (processFile ext file m w)) = put_log w @ [(status_url file, status_body ext w)]
      \<and> (\<exists>content. c = Some content
            \<and> dir_files (snd (processFile ext file m w))
                = AList.update (generateSafeFilename (originalFilename file)) content (dir_files w)))"
proof (intro conjI impI)
  assume "http_get ext (length (get_log w)) (secureUrl file) = Inl e"
  then have p: "processFile ext file m w =
          (\<lparr>success = False, name = originalFilename file, error = Some (message e)\<rparr>,
           console_log (Failed (originalFilename file) (message e)) (after_fetch ext file w))"
    by (simp add: processFile_unfold)
  show "fst (processFile ext file m w)
        = \<lparr>success = False, name = originalFilename file, error = Some (message e)\<rparr>"
    "dir_files (snd (processFile ext file m w)) = dir_files w"
    "write_log (snd (processFile ext file m w)) = write_log w"
    "put_log (snd (processFile ext file m w)) = put_log w"
    unfolding p by (simp_all add: console_log_def after_fetch_keeps)
next
  assume a: "http_get ext (length (get_log w)) (secureUrl file) = Inr d
        \<and> fst (generation ext file m d w) = Inl e"
  obtain wg where g: "generation ext file m d w = (Inl e, wg)"
    using a by (metis prod.collapse)
  have p: "processFile ext file m w =
          (\<lparr>success = False, name = originalFilename file, error = Some (message e)\<rparr>,
           console_log (Failed (originalFilename file) (message e)) wg)"
    using a g by (simp add: processFile_unfold)
  have k: "put_log wg = put_log w" "dir_files wg = dir_files w" "write_log wg = write_log w"
    using generation_keeps[of ext "file" m d w] g by simp_all
  show "fst (processFile ext file m w)
        = \<lparr>success = False, name = originalFilename file, error = Some (message e)\<rparr>"
    "dir_files (snd (processFile ext file m w)) = dir_files w"
    "write_log (snd (processFile ext file m w)) = write_log w"
    "put_log (snd (processFile ext file m w)) = put_log w"
    unfolding p by (simp_all add: console_log_def k)
next
  assume a: "http_get ext (length (get_log w)) (secureUrl file) = Inr d
        \<and> generation ext file m d w = (Inr c, wg)
        \<and> fst (written ext file c wg) = Some e"
  obtain ww where wr: "written ext file c wg = (Some e, ww)"
    using a by (metis prod.collapse)
  have p: "processFile ext file m w =
          (\<lparr>success = False, name = originalFilename file, error = Some (message e)\<rparr>,
           console_log (Failed (originalFilename file) (message e)) ww)"
    using a wr by (simp add: processFile_unfold)
  have k: "put_log wg = put_log w" "dir_files wg = dir_files w" "write_log wg = write_log w"
    using generation_keeps[of ext "file" m d w] a by simp_all
  show "fst (processFile ext file m w)
        = \<lparr>success = False, name = originalFilename file, error = Some (message e)\<rparr>"
    unfolding p by simp
  show "put_log (snd (processFile ext file m w)) = put_log w"
    unfolding p using written_cases[of ext "file" c wg] k wr by (simp add: console_log_def)
  show "case c of
            None \<Rightarrow> dir_files (snd (processFile ext file m w)) = dir_files w
          | Some content \<Rightarrow>
              (\<exists>left. writeFile ext (length (write_log w))
                         (generateSafeFilename (originalFilename file)) content = WriteFailed e left
                 \<and> dir_files (snd (processFile ext file m w))
                     = after_failed_write (generateSafeFilename (originalFilename file)) left
                         (dir_files w))"
    unfolding p using written_cases[of ext "file" c wg] k wr
    by (simp add: console_log_def split: option.splits)
next
  assume a: "http_get ext (length (get_log w)) (secureUrl file) = Inr d
        \<and> generation ext file m d w = (Inr c, wg)
        \<and> fst (written ext file c wg) = None
        \<and> http_put ext (length (put_log w)) (status_url file) (status_body ext w) = Some e"
  obtain ww where wr: "written ext file c wg = (None, ww)" using a by (metis prod.collapse)
  have k: "put_log wg = put_log w" "dir_files wg = dir_files w"
    using generation_keeps[of ext "file" m d w] a by simp_all
  have kw: "put_log ww = put_log w" using written_cases[of ext "file" c wg] k wr by simp
  have sb: "status_body ext ww = status_body ext w" by (simp add: status_body_def kw)
  have p: "processFile ext file m w =
          (\<lparr>success = False, name = originalFilename file, error = Some (message e)\<rparr>,
           console_log (Failed (originalFilename file) (message e))
             (ww\<lparr>put_log := put_log w @ [(status_url file, status_body ext w)]\<rparr>))"
    using a wr by (simp add: processFile_unfold axios_put_def sb kw)
  show "fst (processFile ext file m w)
        = \<lparr>success = False, name = originalFilename file, error = Some (message e)\<rparr>"
    unfolding p by simp
  show "put_log (snd (processFile ext file m w)) = put_log w @ [(status_url file, status_body ext w)]"
    unfolding p by (simp add: console_log_def)
  show "\<exists>content. c = Some content
            \<and> dir_files (snd (processFile ext file m w))
                = AList.update (generateSafeFilename (originalFilename file)) content (dir_files w)"
    unfolding p using written_cases[of ext "file" c wg] k wr by (simp add: console_log_def)
next
  assume a: "http_get ext (length (get_log w)) (secureUrl file) = Inr d
        \<and> generation ext file m d w = (Inr c, wg)
        \<and> fst (written ext file c wg) = None
        \<and> http_put ext (length (put_log w)) (status_url file) (status_body ext w) = None"
  obtain ww where wr: "written ext file c wg = (None, ww)" using a by (metis prod.collapse)
  have k: "put_log wg = put_log w" "dir_files wg = dir_files w"
    using generation_keeps[of ext "file" m d w] a by simp_all
  have kw: "put_log ww = put_log w" using written_cases[of ext "file" c wg] k wr by simp
  have sb: "status_body ext ww = status_body ext w" by (simp add: status_body_def kw)
  have p: "processFile ext file m w =
          (\<lparr>success = True, name = generateSafeFilename (originalFilename file), error = None\<rparr>,
           console_log (Done (generateSafeFilename (originalFilename file)))
             (ww\<lparr>put_log := put_log w @ [(status_url file, status_body ext w)]\<rparr>))"
    using a wr by (simp add: processFile_unfold axios_put_def sb kw)
  show "fst (processFile ext file m w)
        = \<lparr>success = True, name = generateSafeFilename (originalFilename file), error = None\<rparr>"
    unfolding p by simp
  show "put_log (snd (processFile ext file m w)) = put_log w @ [(status_url file, status_body ext w)]"
    unfolding p by (simp add: console_log_def)
  show "\<exists>content. c = Some content
            \<and> dir_files (snd (processFile ext file m w))
                = AList.update (generateSafeFilename (originalFilename file)) content (dir_files w)"
    unfolding p using written_cases[of ext "file" c wg] k wr by (simp add: console_log_def)
qed

theorem processFile_failing_step_witness:
  "http_get get_fail_ext (length (get_log initial_world)) (secureUrl demo_file1)
     = Inl \<lparr>message = js ''Request failed with status code 404'', response_status = Some 404\<rparr>
   \<and> fst (processFile get_fail_ext demo_file1 (js ''gemini-3-flash-preview'') initial_world)
       = \<lparr>success = False, name = js ''First Post.txt'',
          error = Some (js ''Request failed with status code 404'')\<rparr>
   \<and> fst (generation (flaky_ext 9) demo_file1 (js ''gemini-3-flash-preview'')
             (PString (js ''prompt'')) initial_world)
       = Inl \<lparr>message = js ''Too Many Requests'', response_status = Some 429\<rparr>
   \<and> fst (processFile (flaky_ext 9) demo_file1 (js ''gemini-3-flash-preview'') initial_world)
       = \<lparr>success = False, name = js ''First Post.txt'', error = Some (js ''Too Many Requests'')\<rparr>
   \<and> dir_files (snd (processFile (flaky_ext 9) demo_file1 (js ''gemini-3-flash-preview'')
                        initial_world)) = []
   \<and> fst (written write_fail_ext demo_file1 (Some (js ''generated''))
             (snd (generation write_fail_ext demo_file1 (js ''gemini-3-flash-preview'')
                     (PString (js ''prompt'')) stale_world)))
       = Some \<lparr>message = js ''ENOSPC: no space left on device, write'', response_status = None\<rparr>
   \<and> fst (processFile write_fail_ext demo_file1 (js ''gemini-3-flash-preview'') stale_world)
       = \<lparr>success = False, name = js ''First Post.txt'',
          error = Some (js ''ENOSPC: no space left on device, write'')\<rparr>
   \<and> dir_files stale_world = [(js ''first-post.mdx'', js ''earlier'')]
   \<and> dir_files (snd (processFile write_fail_ext demo_file1 (js ''gemini-3-flash-preview'')
                        stale_world)) = [(js ''first-post.mdx'', [])]
   \<and> put_log (snd (processFile write_fail_ext demo_file1 (js ''gemini-3-flash-preview'')
                      stale_world)) = []
   \<and> http_put put_fail_ext (length (put_log initial_world)) (status_url demo_file1)
         (status_body put_fail_ext initial_world)
       = Some \<lparr>message = js ''Request failed with status code 500'', response_status = Some 500\<rparr>
   \<and> fst (processFile put_fail_ext demo_file1 (js ''gemini-3-flash-preview'') initial_world)
       = \<lparr>success = False, name = js ''First Post.txt'',
          error = Some (js ''Request failed with status code 500'')\<rparr>
   \<and> fst (processFile demo_ext demo_file1 (js ''gemini-3-flash-preview'') initial_world)
       = \<lparr>success = True, name = js ''first-post.mdx'', error = None\<rparr>"
proof -
  let ?m = "js ''gemini-3-flash-preview''" and ?d = "PString (js ''prompt'')"
  let ?c = "Some (js ''generated'')"
  let ?e404 = "\<lparr>message = js ''Request failed with status code 404'', response_status = Some 404\<rparr>"
  let ?e429 = "\<lparr>message = js ''Too Many Requests'', response_status = Some 429\<rparr>"
  let ?e500 = "\<lparr>message = js ''Request failed with status code 500'', response_status = Some 500\<rparr>"
  let ?enospc = "\<lparr>message = js ''ENOSPC: no space left on device, write'', response_status = None\<rparr>"
  have get: "http_get demo_ext n (secureUrl demo_file1) = Inr ?d" for n
    using demo_urls by (simp add: demo_sel)
  \<comment> \<open>the prompt fetch fails\<close>
  have h1: "http_get get_fail_ext (length (get_log initial_world)) (secureUrl demo_file1) = Inl ?e404"
    by (rule get_fail_sel)
  note A = processFile_failing_step[of get_fail_ext initial_world demo_file1 ?e404 ?m ?d ?c initial_world]
  from A h1 have c1: "fst (processFile get_fail_ext demo_file1 ?m initial_world)
       = \<lparr>success = False, name = originalFilename demo_file1, error = Some (message ?e404)\<rparr>"
    by blast
  \<comment> \<open>the generation fails\<close>
  have h2: "http_get (flaky_ext 9) (length (get_log initial_world)) (secureUrl demo_file1) = Inr ?d
      \<and> fst (generation (flaky_ext 9) demo_file1 ?m ?d initial_world) = Inl ?e429"
    by (simp add: flaky_sel get generation_flaky)
  note B = processFile_failing_step[of "flaky_ext 9" initial_world demo_file1 ?e429 ?m ?d ?c initial_world]
  from B h2 have c2: "fst (processFile (flaky_ext 9) demo_file1 ?m initial_world)
       = \<lparr>success = False, name = originalFilename demo_file1, error = Some (message ?e429)\<rparr>
     \<and> dir_files (snd (processFile (flaky_ext 9) demo_file1 ?m initial_world)) = dir_files initial_world"
    by blast
  \<comment> \<open>the write fails\<close>
  let ?wg = "snd (generation write_fail_ext demo_file1 ?m ?d stale_world)"
  have g3: "generation write_fail_ext demo_file1 ?m ?d stale_world = (Inr ?c, ?wg)"
    using generation_goes_through[of write_fail_ext demo_file1 ?m ?d stale_world]
    by (simp add: write_fail_sel prod_eq_iff)
  have w3: "fst (written write_fail_ext demo_file1 ?c ?wg) = Some ?enospc"
    by (simp add: written_def writeFileSync_def write_fail_sel)
  have h3: "http_get write_fail_ext (length (get_log stale_world)) (secureUrl demo_file1) = Inr ?d
      \<and> generation write_fail_ext demo_file1 ?m ?d stale_world = (Inr ?c, ?wg)
      \<and> fst (written write_fail_ext demo_file1 ?c ?wg) = Some ?enospc"
    using g3 w3 by (simp add: write_fail_sel get)
  note C = processFile_failing_step[of write_fail_ext stale_world demo_file1 ?enospc ?m ?d ?c ?wg]
  from C h3 have c3: "fst (processFile write_fail_ext demo_file1 ?m stale_world)
       = \<lparr>success = False, name = originalFilename demo_file1, error = Some (message ?enospc)\<rparr>
     \<and> put_log (snd (processFile write_fail_ext demo_file1 ?m stale_world)) = put_log stale_world
     \<and> (\<exists>left. writeFile write_fail_ext (length (write_log stale_world))
                  (generateSafeFilename (originalFilename demo_file1)) (js ''generated'')
                = WriteFailed ?enospc left
          \<and> dir_files (snd (processFile write_fail_ext demo_file1 ?m stale_world))
              = after_failed_write (generateSafeFilename (originalFilename demo_file1)) left
                  (dir_files stale_world))"
    by simp
  then have d3: "dir_files (snd (processFile write_fail_ext demo_file1 ?m stale_world))
                  = [(js ''first-post.mdx'', [])]"
    by (auto simp: write_fail_sel after_failed_write_def demo_file1_sel slug_first_post
        stale_world_def initial_world_def)
  \<comment> \<open>the status update fails\<close>
  let ?wp = "snd (generation put_fail_ext demo_file1 ?m ?d initial_world)"
  have g4: "generation put_fail_ext demo_file1 ?m ?d initial_world = (Inr ?c, ?wp)"
    using generation_goes_through[of put_fail_ext demo_file1 ?m ?d initial_world]
    by (simp add: put_fail_sel prod_eq_iff)
  have w4: "fst (written put_fail_ext demo_file1 ?c ?wp) = None"
    by (simp add: written_def writeFileSync_def put_fail_sel demo_sel)
  have p4: "http_put put_fail_ext (length (put_log initial_world)) (status_url demo_file1)
              (status_body put_fail_ext initial_world) = Some ?e500"
    by (simp add: put_fail_sel)
  have h4: "http_get put_fail_ext (length (get_log initial_world)) (secureUrl demo_file1) = Inr ?d
      \<and> generation put_fail_ext demo_file1 ?m ?d initial_world = (Inr ?c, ?wp)
      \<and> fst (written put_fail_ext demo_file1 ?c ?wp) = None
      \<and> http_put put_fail_ext (length (put_log initial_world)) (status_url demo_file1)
              (status_body put_fail_ext initial_world) = Some ?e500"
    using g4 w4 p4 by (simp add: put_fail_sel get)
  note D = processFile_failing_step[of put_fail_ext initial_world demo_file1 ?e500 ?m ?d ?c ?wp]
  from D h4 have c4: "fst (processFile put_fail_ext demo_file1 ?m initial_world)
       = \<lparr>success = False, name = originalFilename demo_file1, error = Some (message ?e500)\<rparr>"
    by blast
  \<comment> \<open>no step fails\<close>
  let ?wd = "snd (generation demo_ext demo_file1 ?m ?d initial_world)"
  have g5: "generation demo_ext demo_file1 ?m ?d initial_world = (Inr ?c, ?wd)"
    using generation_goes_through[of demo_ext demo_file1 ?m ?d initial_world]
    by (simp add: prod_eq_iff)
  have w5: "fst (written demo_ext demo_file1 ?c ?wd) = None"
    by (simp add: written_def writeFileSync_def demo_sel)
  have h5: "http_get demo_ext (length (get_log initial_world)) (secureUrl demo_file1) = Inr ?d
      \<and> generation demo_ext demo_file1 ?m ?d initial_world = (Inr ?c, ?wd)
      \<and> fst (written demo_ext demo_file1 ?c ?wd) = None
      \<and> http_put demo_ext (length (put_log initial_world)) (status_url demo_file1)
              (status_body demo_ext initial_world) = None"
    using g5 w5 get[of "length (get_log initial_world)"] by (simp add: demo_sel(4))
  note E = processFile_failing_step[of demo_ext initial_world demo_file1 ?e500 ?m ?d ?c ?wd]
  from E h5 have c5: "fst (processFile demo_ext demo_file1 ?m initial_world)
       = \<lparr>success = True, name = generateSafeFilename (originalFilename demo_file1), error = None\<rparr>"
    by blast
  have s: "dir_files stale_world = [(js ''first-post.mdx'', js ''earlier'')]"
     "put_log stale_world = []" "dir_files initial_world = []"
    by (simp_all add: stale_world_def initial_world_def)
  show ?thesis
    using h1 c1 h2 c2 w3 c3 d3 p4 c4 c5 s
    by (simp add: demo_file1_sel slug_first_post)
qed

section \<open>A call of processFile that is never interrupted\<close>

text \<open>
  Resumed at every \<open>await\<close> with no other call in between, the task of a file record
  returns what \<open>processFile\<close> returns and leaves the same state.
\<close>

lemma run_task_returned: "run_task ext model (AwaitProcessed r) w = (r, w)"
  by (subst run_task.simps) (simp add: returned_def)

lemma run_task_step:
  "returned task = None \<Longrightarrow>
   run_task ext model task w
     = run_task ext model (fst (resume ext model task w)) (snd (resume ext model task w))"
  by (subst run_task.simps) (simp split: prod.splits)

lemma run_task_generate:
  "run_task ext model (fst (attempt_start ext file p a w)) (snd (attempt_start ext file p a w))
     = run_task ext model (AwaitGenerated file (fst (generateWithRetry_loop ext p model a w)))
         (snd (generateWithRetry_loop ext p model a w))"
proof (induction ext p model a w rule: generateWithRetry_loop.induct)
  case (1 ext p model attempt w)
  show ?case
  proof (cases "attempt < MAX_RETRIES")
    case False
    then show ?thesis
      by (subst (1 2) generateWithRetry_loop.simps) (simp add: attempt_start_def)
  next
    case True
    obtain ai w1 where k: "getNextGemini ext w = (ai, w1)" by (metis surj_pair)
    obtain r w2 where c: "call_generateContent ext ai model p (sleep REQUEST_DELAY w1) = (r, w2)"
      by (metis surj_pair)
    have s: "attempt_start ext file p attempt w = (AwaitDelay file p attempt ai, sleep REQUEST_DELAY w1)"
      using True k by (simp add: attempt_start_def)
    have l: "run_task ext model (fst (attempt_start ext file p attempt w))
               (snd (attempt_start ext file p attempt w))
             = run_task ext model (AwaitGenerate file p attempt r) w2"
      unfolding s using c by (simp add: run_task_step returned_def)
    show ?thesis
    proof (cases "gen_fails r")
      case False
      then obtain x where x: "r = Inr (Some x)" "x \<noteq> []"
        by (cases r) (auto simp: gen_fails_def falsy_def)
      have a: "attempt_once ext p model w = (Inr x, w2)"
        using k c x by (simp add: attempt_once_def falsy_def)
      have "run_task ext model (AwaitGenerate file p attempt r) w2
              = run_task ext model (AwaitGenerated file (Inr (Some x))) w2"
        using x by (simp add: run_task_step returned_def falsy_def)
      with l a True show ?thesis
        by (subst (1 2) generateWithRetry_loop.simps) simp
    next
      case f: True
      have a: "attempt_once ext p model w = (Inl (thrown_by r), w2)"
        using k c f by (cases r) (auto simp: attempt_once_def gen_fails_def thrown_by_def)
      let ?w3 = "after_failure (attempt + 1) (thrown_by r) w2"
      have b: "run_task ext model (AwaitGenerate file p attempt r) w2
              = run_task ext model (AwaitBackoff file p (attempt + 1) (thrown_by r)) ?w3"
        using f by (cases r) (auto simp: run_task_step returned_def gen_fails_def thrown_by_def attempt_catch_def)
      show ?thesis
      proof (cases "attempt + 1 \<ge> MAX_RETRIES")
        case True
        have "run_task ext model (AwaitBackoff file p (attempt + 1) (thrown_by r)) ?w3
               = run_task ext model (AwaitGenerated file (Inl (thrown_by r))) ?w3"
          using True by (simp add: run_task_step returned_def)
        with l b a True \<open>attempt < MAX_RETRIES\<close> show ?thesis
          by (subst (1 2) generateWithRetry_loop.simps) simp
      next
        case False
        have "run_task ext model (AwaitBackoff file p (attempt + 1) (thrown_by r)) ?w3
               = run_task ext model (fst (attempt_start ext file p (attempt + 1) ?w3))
                   (snd (attempt_start ext file p (attempt + 1) ?w3))"
          using False by (simp add: run_task_step returned_def)
        also note "1.IH"[OF \<open>attempt < MAX_RETRIES\<close> a[symmetric] refl False]
        finally show ?thesis
          using l b a False \<open>attempt < MAX_RETRIES\<close>
          by (subst (1 2) generateWithRetry_loop.simps) simp
      qed
    qed
  qed
qed

lemma run_task_persist:
  "run_task ext model (AwaitGenerated file (Inr c)) w
     = (case persist_and_report ext file c w of
          (Inr safeFilename, w') \<Rightarrow> (\<lparr>success = True, name = safeFilename, error = None\<rparr>, w')
        | (Inl err, w') \<Rightarrow>
            (\<lparr>success = False, name = originalFilename file, error = Some (message err)\<rparr>,
             console_log (Failed (originalFilename file) (message err)) w'))"
  by (auto simp: run_task_step run_task_returned returned_def processFile_persist_def
      persist_and_report_def report_status_def send_status_def processFile_catch_def
      split: prod.splits option.splits)

lemma run_task_thrown:
  "run_task ext model (AwaitGenerated file (Inl e)) w
     = (\<lparr>success = False, name = originalFilename file, error = Some (message e)\<rparr>,
        console_log (Failed (originalFilename file) (message e)) w)"
  by (simp add: run_task_step run_task_returned returned_def processFile_persist_def
      processFile_catch_def)

lemma run_task_processFile:
  "run_task ext model (fst (processFile_start ext file w)) (snd (processFile_start ext file w))
     = processFile ext file model w"
proof -
  let ?w0 = "console_log (Processing (originalFilename file)) w"
  obtain r w1 where g: "axios_get ext (secureUrl file) ?w0 = (r, w1)" by (metis surj_pair)
  have s: "processFile_start ext file w = (AwaitGet file r, w1)"
    using g by (simp add: processFile_start_def)
  show ?thesis
  proof (cases r)
    case (Inl e)
    then show ?thesis unfolding s using g
      by (simp add: run_task_step run_task_returned returned_def processFile_catch_def
          processFile_def processFile_try_def)
  next
    case (Inr d)
    obtain r2 w2 where gen: "generateWithRetry_loop ext (promptText_of ext d) model 0 w1 = (r2, w2)"
      by (metis surj_pair)
    have "run_task ext model (AwaitGet file r) w1
            = run_task ext model (fst (attempt_start ext file (promptText_of ext d) 0 w1))
                (snd (attempt_start ext file (promptText_of ext d) 0 w1))"
      using Inr by (simp add: run_task_step returned_def)
    also have "\<dots> = run_task ext model (AwaitGenerated file r2) w2"
      using run_task_generate[of ext model "file" "promptText_of ext d" 0 w1] gen by simp
    finally have a: "run_task ext model (AwaitGet file r) w1
                       = run_task ext model (AwaitGenerated file r2) w2" .
    show ?thesis
    proof (cases r2)
      case (Inl e)
      then show ?thesis unfolding s using a g gen \<open>r = Inr d\<close>
        by (simp add: run_task_thrown processFile_def processFile_try_def generateWithRetry_def)
    next
      case (Inr c)
      then show ?thesis unfolding s using a g gen \<open>r = Inr d\<close>
        by (simp add: run_task_persist processFile_def processFile_try_def generateWithRetry_def
            split: prod.splits sum.splits)
    qed
  qed
qed

section \<open>Properties of the queue\<close>

text \<open>
  A resumed task stays a task of the same file record; only the start of a call sends a
  request for a prompt, and no step of a call sends a mail.
\<close>

lemma resume_task_for:
  "task_for file task \<Longrightarrow> task_for file (fst (resume ext model task w))"
proof (cases task)
  case (AwaitGet f r)
  assume "task_for file task"
  with AwaitGet show ?thesis
    by (auto simp: processFile_catch_def attempt_start_def outcome_for_def split: sum.splits prod.splits)
next
  case (AwaitDelay f promptText attempt ai)
  assume "task_for file task"
  with AwaitDelay show ?thesis by (simp split: prod.splits)
next
  case (AwaitGenerate f promptText attempt r)
  assume "task_for file task"
  with AwaitGenerate show ?thesis by (auto simp: attempt_catch_def split: sum.splits)
next
  case (AwaitBackoff f promptText attempt e)
  assume "task_for file task"
  with AwaitBackoff show ?thesis by (auto simp: attempt_start_def split: prod.splits)
next
  case (AwaitGenerated f r)
  assume "task_for file task"
  with AwaitGenerated show ?thesis
    by (auto simp: processFile_persist_def processFile_catch_def send_status_def outcome_for_def
        split: sum.splits prod.splits option.splits)
next
  case (AwaitPut f safeFilename r)
  assume "task_for file task"
  with AwaitPut show ?thesis
    by (auto simp: processFile_catch_def outcome_for_def split: option.splits)
next
  case (AwaitProcessed result)
  assume "task_for file task"
  with AwaitProcessed show ?thesis by simp
qed

lemma processFile_start_task_for: "task_for file (fst (processFile_start ext file w))"
  by (simp add: processFile_start_def split: prod.splits)

lemma processFile_start_get_log:
  "get_log (snd (processFile_start ext file w)) = get_log w @ [secureUrl file]"
  by (simp add: processFile_start_def axios_get_def console_log_def)

lemma processFile_start_mail_log:
  "mail_log (snd (processFile_start ext file w)) = mail_log w"
  by (simp add: processFile_start_def axios_get_def console_log_def)

lemmas task_defs =
  processFile_catch_def attempt_start_def attempt_catch_def send_status_def
  processFile_persist_def

lemmas effect_defs =
  axios_put_def writeFileSync_def call_generateContent_def getNextGemini_def sleep_def
  console_log_def after_failure_def

lemma resume_get_log: "get_log (snd (resume ext model task w)) = get_log w"
  by (cases task)
     (auto simp: task_defs effect_defs split: sum.splits prod.splits option.splits write_result.splits)

lemma resume_mail_log: "mail_log (snd (resume ext model task w)) = mail_log w"
  by (cases task)
     (auto simp: task_defs effect_defs split: sum.splits prod.splits option.splits write_result.splits)

lemma held_update:
  "j < length ws \<Longrightarrow> held (ws[j := v]) + worker_items (ws ! j) = held ws + worker_items v"
  unfolding held_def
proof (induction ws arbitrary: j)
  case Nil
  then show ?case by simp
next
  case (Cons a ws)
  then show ?case by (cases j) (auto simp: add.assoc)
qed

lemma held_mem: "j < length ws \<Longrightarrow> ws ! j = Some x \<Longrightarrow> x \<in># held ws"
proof -
  assume a: "j < length ws" "ws ! j = Some x"
  from held_update[OF a(1), of None] a(2)
  have "held ws = held (ws[j := None]) + {#x#}" by (simp add: worker_items_def)
  then show ?thesis by simp
qed

lemma pending_from_Nil_iff: "pending_from k ws = [] \<longleftrightarrow> sum_list (map worker_items ws) = {#}"
  by (induction k ws rule: pending_from.induct) (simp_all add: worker_items_def)

lemma pending_workers_Nil_iff: "pending_workers ws = [] \<longleftrightarrow> held ws = {#}"
  by (simp add: pending_workers_def held_def pending_from_Nil_iff)

text \<open>
  The invariant of the loop: the indices below \<open>index\<close> are those of the items held by
  a worker and of the items whose outcome has been pushed (\<open>done\<close>, in the order of
  \<open>results\<close>), each once; every held task and every pushed outcome belongs to its
  item; while items are left, some worker is in its loop.
\<close>

lemma worker_next_cases:
  assumes "(st, index', w') = worker_next ext files index w"
  shows "(length files \<le> index \<and> st = None \<and> index' = index \<and> w' = w)
       \<or> (index < length files
           \<and> st = Some (index, fst (processFile_start ext (files ! index) w))
           \<and> index' = index + 1 \<and> w' = snd (processFile_start ext (files ! index) w))"
  using assms by (auto simp: worker_next_def split: if_splits prod.splits)

lemma runQueue_loop_inv:
  assumes "image_mset fst (held ws) + mset done = mset [0..<index]"
    and "index \<le> length files"
    and "\<forall>x \<in># held ws. task_for (files ! fst x) (snd x)"
    and "list_all2 (\<lambda>r i. outcome_for r (files ! i)) results done"
    and "index < length files \<longrightarrow> held ws \<noteq> {#}"
    and "get_log w = g @ map secureUrl (take index files)"
    and "mail_log w = ml"
  shows "\<exists>done'. mset done' = mset [0..<length files]
           \<and> list_all2 (\<lambda>r i. outcome_for r (files ! i))
                (fst (runQueue_loop ext files model sched t index ws results w)) done'
           \<and> get_log (snd (runQueue_loop ext files model sched t index ws results w))
               = g @ map secureUrl files
           \<and> mail_log (snd (runQueue_loop ext files model sched t index ws results w)) = ml"
  using assms
proof (induction ext files model sched t index ws results w arbitrary: "done"
       rule: runQueue_loop.induct)
  case (1 ext files model sched t index ws results w)
  note inv = "1.prems"
  show ?case
  proof (cases "pending_workers ws = []")
    case True
    then have h: "held ws = {#}" by (simp add: pending_workers_Nil_iff)
    with inv(5) inv(2) have i: "index = length files" by auto
    have "runQueue_loop ext files model sched t index ws results w = (results, w)"
      using True by (subst runQueue_loop.simps) simp
    with inv h i show ?thesis by (auto intro!: exI[of _ "done"])
  next
    case False
    obtain j ci task where pick:
      "(j, ci, task) = pending_workers ws ! (sched t mod length (pending_workers ws))"
      by (metis prod_cases3)
    have j: "j < length ws" "ws ! j = Some (ci, task)"
      using pending_workers_pick[OF False, of j "(ci, task)" "sched t"] pick by simp_all
    have mem: "(ci, task) \<in># held ws" using held_mem[OF j] .
    have tf: "task_for (files ! ci) task" using inv(3) mem by auto
    show ?thesis
    proof (cases "returned task")
      case None
      obtain task' w' where r: "(task', w') = resume ext model task w" by (metis surj_pair)
      have t': "task' = fst (resume ext model task w)" and w': "w' = snd (resume ext model task w)"
        using r[symmetric] by simp_all
      let ?ws = "ws[j := Some (ci, task')]"
      have hu: "held ?ws + {#(ci, task)#} = held ws + {#(ci, task')#}"
        using held_update[OF j(1), of "Some (ci, task')"] j(2) by (simp add: worker_items_def)
      have "image_mset fst (held ?ws + {#(ci, task)#}) = image_mset fst (held ws + {#(ci, task')#})"
        using hu by simp
      then have a: "image_mset fst (held ?ws) = image_mset fst (held ws)" by simp
      have c: "\<forall>x \<in># held ?ws. task_for (files ! fst x) (snd x)"
      proof
        fix x assume "x \<in># held ?ws"
        then have "x \<in># held ws + {#(ci, task')#}" unfolding hu[symmetric] by simp
        then have "x \<in># held ws \<or> x = (ci, task')" by auto
        then show "task_for (files ! fst x) (snd x)"
          using inv(3) resume_task_for[OF tf, of ext model w] t' by auto
      qed
      have e: "held ?ws \<noteq> {#}"
        using held_mem[of j ?ws "(ci, task')"] j(1) by auto
      have f: "get_log w' = g @ map secureUrl (take index files)"
        using inv(6) w' by (simp add: resume_get_log)
      have m: "mail_log w' = ml" using inv(7) w' by (simp add: resume_mail_log)
      have IH: "\<exists>done'. mset done' = mset [0..<length files]
           \<and> list_all2 (\<lambda>r i. outcome_for r (files ! i))
                (fst (runQueue_loop ext files model sched (t + 1) index ?ws results w')) done'
           \<and> get_log (snd (runQueue_loop ext files model sched (t + 1) index ?ws results w'))
               = g @ map secureUrl files
           \<and> mail_log (snd (runQueue_loop ext files model sched (t + 1) index ?ws results w')) = ml"
        using "1.IH"(1)[OF False pick refl None r, of "done"] a c e f m inv(1) inv(2) inv(4) by simp
      have "runQueue_loop ext files model sched t index ws results w
            = runQueue_loop ext files model sched (t + 1) index ?ws results w'"
        using False pick[symmetric] None r[symmetric] by (subst runQueue_loop.simps) simp
      with IH show ?thesis by simp
    next
      case (Some result)
      then have tr: "task = AwaitProcessed result" by (cases task) (simp_all add: returned_def)
      have o: "outcome_for result (files ! ci)" using tf tr by simp
      obtain st index' w' where n: "(st, index', w') = worker_next ext files index w"
        by (metis prod_cases3)
      let ?ws = "ws[j := st]"
      have hu: "held ?ws + {#(ci, task)#} = held ws + worker_items st"
        using held_update[OF j(1), of st] j(2) by (simp add: worker_items_def)
      have d: "list_all2 (\<lambda>r i. outcome_for r (files ! i)) (results @ [result]) (done @ [ci])"
        using inv(4) o by (simp add: list_all2_appendI)
      have st: "?ws ! j = st" using j(1) by simp
      have inv': "image_mset fst (held ?ws) + mset (done @ [ci]) = mset [0..<index']
          \<and> index' \<le> length files
          \<and> (\<forall>x \<in># held ?ws. task_for (files ! fst x) (snd x))
          \<and> (index' < length files \<longrightarrow> held ?ws \<noteq> {#})
          \<and> get_log w' = g @ map secureUrl (take index' files)
          \<and> mail_log w' = ml"
        using worker_next_cases[OF n]
      proof
        assume x: "length files \<le> index \<and> st = None \<and> index' = index \<and> w' = w"
        then have hu': "held ?ws + {#(ci, task)#} = held ws" using hu by (simp add: worker_items_def)
        have b: "image_mset fst (held ws) = image_mset fst (held ?ws) + {#ci#}"
          using arg_cong[OF hu', of "image_mset fst"] by simp
        have a: "image_mset fst (held ?ws) + mset (done @ [ci]) = mset [0..<index]"
          using inv(1) unfolding b by (simp del: mset_upt)
        have c: "\<forall>x \<in># held ?ws. task_for (files ! fst x) (snd x)"
        proof
          fix y assume "y \<in># held ?ws"
          then have "y \<in># held ws" unfolding hu'[symmetric] by simp
          then show "task_for (files ! fst y) (snd y)" using inv(3) by auto
        qed
        show ?thesis using x a c inv(2) inv(6) inv(7) by simp
      next
        assume x: "index < length files
           \<and> st = Some (index, fst (processFile_start ext (files ! index) w))
           \<and> index' = index + 1 \<and> w' = snd (processFile_start ext (files ! index) w)"
        let ?t0 = "fst (processFile_start ext (files ! index) w)"
        have hu': "held ?ws + {#(ci, task)#} = held ws + {#(index, ?t0)#}"
          using hu x by (simp add: worker_items_def)
        have b: "image_mset fst (held ?ws) + {#ci#} = image_mset fst (held ws) + {#index#}"
          using arg_cong[OF hu', of "image_mset fst"] by simp
        have "image_mset fst (held ?ws) + mset (done @ [ci])
                = (image_mset fst (held ?ws) + {#ci#}) + mset done" by simp
        also have "\<dots> = (image_mset fst (held ws) + mset done) + {#index#}"
          unfolding b by simp
        also have "\<dots> = mset [0..<Suc index]"
          unfolding inv(1) by (simp del: mset_upt)
        finally have a: "image_mset fst (held ?ws) + mset (done @ [ci]) = mset [0..<Suc index]" .
        have c: "\<forall>x \<in># held ?ws. task_for (files ! fst x) (snd x)"
        proof
          fix y assume "y \<in># held ?ws"
          then have "y \<in># held ws + {#(index, ?t0)#}" unfolding hu'[symmetric] by simp
          then have "y \<in># held ws \<or> y = (index, ?t0)" by auto
          then show "task_for (files ! fst y) (snd y)"
            using inv(3) processFile_start_task_for[of "files ! index" ext w] by auto
        qed
        have e: "held ?ws \<noteq> {#}"
          using held_mem[of j ?ws "(index, ?t0)"] j(1) x by auto
        have f: "get_log w' = g @ map secureUrl (take (Suc index) files)"
          using inv(6) x by (simp add: processFile_start_get_log take_Suc_conv_app_nth)
        have m: "mail_log w' = ml" using inv(7) x by (simp add: processFile_start_mail_log)
        show ?thesis using x a c e f m by simp
      qed
      have IH: "\<exists>done'. mset done' = mset [0..<length files]
           \<and> list_all2 (\<lambda>r i. outcome_for r (files ! i))
                (fst (runQueue_loop ext files model sched (t + 1) index' ?ws (results @ [result]) w')) done'
           \<and> get_log (snd (runQueue_loop ext files model sched (t + 1) index' ?ws (results @ [result]) w'))
               = g @ map secureUrl files
           \<and> mail_log (snd (runQueue_loop ext files model sched (t + 1) index' ?ws (results @ [result]) w')) = ml"
        using "1.IH"(2)[OF False pick refl Some n refl, of "done @ [ci]"] inv' d by blast
      have "runQueue_loop ext files model sched t index ws results w
            = runQueue_loop ext files model sched (t + 1) index' ?ws (results @ [result]) w'"
        using False pick[symmetric] Some n[symmetric] by (subst runQueue_loop.simps) simp
      with IH show ?thesis by simp
    qed
  qed
qed

lemma held_Cons: "held (st # sts) = worker_items st + held sts"
  by (simp add: held_def)

lemma mset_upt_size: "mset [0..<(a::nat)] \<subseteq># mset [0..<b] \<Longrightarrow> a \<le> b"
  using size_mset_mono[of "mset [0..<a]" "mset [0..<b]"] by (simp del: mset_upt)

lemma start_workers_inv:
  assumes "(ws, index', w') = start_workers ext files n index w"
    and "index \<le> length files"
    and "get_log w = g @ map secureUrl (take index files)"
  shows "image_mset fst (held ws) + mset [0..<index] = mset [0..<index']
     \<and> index' \<le> length files
     \<and> (\<forall>x \<in># held ws. task_for (files ! fst x) (snd x))
     \<and> (0 < n \<longrightarrow> index' < length files \<longrightarrow> held ws \<noteq> {#})
     \<and> get_log w' = g @ map secureUrl (take index' files)
     \<and> mail_log w' = mail_log w"
  using assms
proof (induction n arbitrary: index w ws index' w')
  case 0
  then show ?case by (simp add: held_def)
next
  case (Suc n)
  obtain st i1 w1 where n1: "(st, i1, w1) = worker_next ext files index w" by (metis prod_cases3)
  obtain sts i2 w2 where n2: "(sts, i2, w2) = start_workers ext files n i1 w1" by (metis prod_cases3)
  have r: "ws = st # sts" "index' = i2" "w' = w2"
    using Suc.prems(1) n1[symmetric] n2[symmetric] by simp_all
  from worker_next_cases[OF n1] show ?case
  proof
    assume x: "length files \<le> index \<and> st = None \<and> i1 = index \<and> w1 = w"
    from Suc.IH[OF n2] x Suc.prems(2,3)
    have ih: "image_mset fst (held sts) + mset [0..<index] = mset [0..<i2]"
       "i2 \<le> length files" "\<forall>x \<in># held sts. task_for (files ! fst x) (snd x)"
       "get_log w2 = g @ map secureUrl (take i2 files)" "mail_log w2 = mail_log w"
      by simp_all
    have "mset [0..<index] \<subseteq># mset [0..<i2]" unfolding ih(1)[symmetric] by simp
    then have "index \<le> i2" by (rule mset_upt_size)
    with x ih(2) have "\<not> i2 < length files" by simp
    with ih x r show ?thesis by (simp add: held_Cons worker_items_def del: mset_upt)
  next
    assume x: "index < length files
           \<and> st = Some (index, fst (processFile_start ext (files ! index) w))
           \<and> i1 = index + 1 \<and> w1 = snd (processFile_start ext (files ! index) w)"
    have g1: "get_log w1 = g @ map secureUrl (take i1 files)"
      using x Suc.prems(3) by (simp add: processFile_start_get_log take_Suc_conv_app_nth)
    have "i1 \<le> length files" using x by simp
    from Suc.IH[OF n2 this g1] x
    have ih: "image_mset fst (held sts) + mset [0..<Suc index] = mset [0..<i2]"
       "i2 \<le> length files" "\<forall>x \<in># held sts. task_for (files ! fst x) (snd x)"
       "get_log w2 = g @ map secureUrl (take i2 files)" "mail_log w2 = mail_log w"
      by (simp_all add: processFile_start_mail_log)
    have a: "image_mset fst (held ws) + mset [0..<index] = mset [0..<i2]"
      unfolding ih(1)[symmetric] using r x by (simp add: held_Cons worker_items_def del: mset_upt)
    have c: "\<forall>x \<in># held ws. task_for (files ! fst x) (snd x)"
      using ih(3) r x processFile_start_task_for[of "files ! index" ext w]
      by (auto simp: held_Cons worker_items_def)
    have e: "held ws \<noteq> {#}" using r x by (simp add: held_Cons worker_items_def)
    show ?thesis using a c e ih r by simp
  qed
qed

lemma runQueue_with_outcomes:
  assumes "0 < n"
  shows "\<exists>order. mset order = mset [0..<length files]
           \<and> list_all2 (\<lambda>r i. outcome_for r (files ! i))
                (fst (runQueue_with n ext files sched w)) order
           \<and> get_log (snd (runQueue_with n ext files sched w)) = get_log w @ map secureUrl files
           \<and> mail_log (snd (runQueue_with n ext files sched w)) = mail_log w"
proof -
  obtain ws index w' where s: "(ws, index, w') = start_workers ext files n 0 w"
    by (metis prod_cases3)
  have q: "runQueue_with n ext files sched w
             = runQueue_loop ext files (GEMINI_MODEL ext) sched 0 index ws [] w'"
    using s[symmetric] by (simp add: runQueue_with_def)
  from start_workers_inv[OF s, of "get_log w"] assms
  have i: "image_mset fst (held ws) + mset [] = mset [0..<index]"
     "index \<le> length files" "\<forall>x \<in># held ws. task_for (files ! fst x) (snd x)"
     "index < length files \<longrightarrow> held ws \<noteq> {#}"
     "get_log w' = get_log w @ map secureUrl (take index files)" "mail_log w' = mail_log w"
    by (simp_all del: mset_upt)
  have l: "list_all2 (\<lambda>r i. outcome_for r (files ! i)) [] []" by simp
  show ?thesis
    unfolding q using runQueue_loop_inv[OF i(1) i(2) i(3) l i(4) i(5) i(6)] .
qed

lemma outcomes_of_items:
  assumes "mset order = mset [0..<length files]"
    and "list_all2 (\<lambda>r i. outcome_for r (files ! i)) rs order"
  shows "mset (map ((!) files) order) = mset files
     \<and> list_all2 outcome_for rs (map ((!) files) order) \<and> length rs = length files"
proof -
  have "mset (map ((!) files) order) = image_mset ((!) files) (mset order)" by simp
  also have "\<dots> = mset (map ((!) files) [0..<length files])"
    unfolding assms(1) by (simp del: mset_upt)
  also have "\<dots> = mset files" by (simp add: map_nth)
  finally have a: "mset (map ((!) files) order) = mset files" .
  have b: "list_all2 outcome_for rs (map ((!) files) order)"
    using assms(2) by (simp add: list_all2_map2)
  have "length rs = length order" using assms(2) by (rule list_all2_lengthD)
  also have "\<dots> = size (mset order)" by simp
  also have "\<dots> = length files" unfolding assms(1) by (simp del: mset_upt)
  finally show ?thesis using a b by simp
qed

text \<open>
  The interleaving, evaluated: two items, three workers, a generation service that fails its
  first five calls, and the pending promises settling in turn. The two calls of
  \<open>processFile\<close> share the failures, the service is called seven times and both items
  succeed.
\<close>

lemmas queue_eval =
  runQueue_def runQueue_with_def CONCURRENCY_LIMIT_def numeral_3_eq_3 worker_next_def
  processFile_start_def axios_get_def pending_workers_def returned_def task_defs effect_defs
  runQueue_loop.simps promptText_of_def at_index_def falsy_def MAX_RETRIES_def REQUEST_DELAY_def
  mod_Suc

lemma ev_flaky_queue:
  "map success (fst (runQueue (flaky_ext 5) [demo_file1, demo_file3] (\<lambda>t. t) initial_world)) = [True, True]
   \<and> length (gen_log (snd (runQueue (flaky_ext 5) [demo_file1, demo_file3] (\<lambda>t. t) initial_world))) = 7"
  by (simp add: queue_eval GEMINI_MODEL_flaky flaky_sel demo_sel demo_urls demo_urls3
      demo_file1_sel demo_file3_sel slug_first_post slug_notes apiKeys_flaky_ext initial_world_def)

text \<open>Three items and two workers: the worker that is free first claims the third item.\<close>

lemma ev_queue:
  "map name (fst (runQueue_with 2 demo_ext [demo_file1, demo_file3, demo_file1] (\<lambda>t. t) initial_world))
     = [js ''first-post.mdx'', js ''notes_v2.mdx'', js ''first-post.mdx'']
   \<and> map success (fst (runQueue_with 2 demo_ext [demo_file1, demo_file3, demo_file1] (\<lambda>t. t) initial_world))
     = [True, True, True]
   \<and> length (gen_log (snd (runQueue_with 2 demo_ext [demo_file1, demo_file3, demo_file1] (\<lambda>t. t) initial_world))) = 3"
  by (simp add: queue_eval numeral_2_eq_2 GEMINI_MODEL_demo demo_sel demo_urls demo_urls3
      demo_file1_sel demo_file3_sel slug_first_post slug_notes apiKeys_demo_ext initial_world_def)

text \<open>
  C2: for every positive number of workers, every list of items and every order in which
  the pending promises settle, \<open>runQueue\<close> returns, with as many outcomes as items. The
  outcomes are those of the items, each item once: \<open>order\<close> lists the indices of the
  items in the order in which their outcomes were pushed, it is a permutation of
  \<open>0, ..., N - 1\<close>, and every outcome belongs to the item at its index. \<open>processFile\<close> was
  started exactly once for each item, in the order of the list: the prompts requested
  during the run are those of the items, one request each. The source runs
  \<open>CONCURRENCY_LIMIT = 3\<close> workers.
\<close>

theorem runQueue_each_item_once:
  assumes "0 < n"
  shows "length (fst (runQueue_with n ext files sched w)) = length files
   \<and> (\<exists>order. mset order = mset [0..<length files]
         \<and> list_all2 (\<lambda>r i. outcome_for r (files ! i))
              (fst (runQueue_with n ext files sched w)) order)
   \<and> get_log (snd (runQueue_with n ext files sched w)) = get_log w @ map secureUrl files
   \<and> 0 < CONCURRENCY_LIMIT
   \<and> runQueue ext files sched w = runQueue_with CONCURRENCY_LIMIT ext files sched w"
proof -
  from runQueue_with_outcomes[OF assms, of files ext sched w]
  obtain order where o: "mset order = mset [0..<length files]"
    "list_all2 (\<lambda>r i. outcome_for r (files ! i)) (fst (runQueue_with n ext files sched w)) order"
    "get_log (snd (runQueue_with n ext files sched w)) = get_log w @ map secureUrl files"
    by blast
  from outcomes_of_items[OF o(1) o(2)]
  have "length (fst (runQueue_with n ext files sched w)) = length files" by simp
  with o show ?thesis by (auto simp: CONCURRENCY_LIMIT_def runQueue_def)
qed

theorem runQueue_each_item_once_witness:
  "0 < (2::nat)
   \<and> length (fst (runQueue_with 2 demo_ext [demo_file1, demo_file3, demo_file1] (\<lambda>t. t)
                     initial_world)) = 3
   \<and> get_log (snd (runQueue_with 2 demo_ext [demo_file1, demo_file3, demo_file1] (\<lambda>t. t)
                      initial_world))
       = [secureUrl demo_file1, secureUrl demo_file3, secureUrl demo_file1]
   \<and> map name (fst (runQueue_with 2 demo_ext [demo_file1, demo_file3, demo_file1] (\<lambda>t. t)
                       initial_world))
       = [js ''first-post.mdx'', js ''notes_v2.mdx'', js ''first-post.mdx'']
   \<and> map success (fst (runQueue_with 2 demo_ext [demo_file1, demo_file3, demo_file1] (\<lambda>t. t)
                          initial_world))
       = [True, True, True]
   \<and> length (gen_log (snd (runQueue_with 2 demo_ext [demo_file1, demo_file3, demo_file1]
                              (\<lambda>t. t) initial_world))) = 3"
proof -
  have h: "0 < (2::nat)" by simp
  note A = runQueue_each_item_once[OF h, of demo_ext "[demo_file1, demo_file3, demo_file1]"
             "\<lambda>t. t" initial_world]
  from A have "length (fst (runQueue_with 2 demo_ext [demo_file1, demo_file3, demo_file1]
                  (\<lambda>t. t) initial_world)) = 3"
    by simp
  moreover from A have "get_log (snd (runQueue_with 2 demo_ext [demo_file1, demo_file3, demo_file1]
                  (\<lambda>t. t) initial_world))
       = [secureUrl demo_file1, secureUrl demo_file3, secureUrl demo_file1]"
    by (simp add: initial_world_def)
  ultimately show ?thesis using ev_queue by simp
qed

section \<open>Properties of the report\<close>

lemma summary_lines:
  "list_all2 outcome_for rs fs \<Longrightarrow>
   map name (filter success rs)
     = map (\<lambda>f. generateSafeFilename (originalFilename f)) (succeeded_items rs fs)
   \<and> map failed_line (filter (\<lambda>r. \<not> success r) rs)
     = map (\<lambda>(f, msg). js ''- '' @ originalFilename f @ js '' ('' @ msg @ js '')'')
         (failed_items rs fs)"
proof (induction rule: list_all2_induct)
  case Nil
  then show ?case by (simp add: succeeded_items_def failed_items_def)
next
  case (Cons r rs f fs)
  then show ?case
    by (auto simp: succeeded_items_def failed_items_def outcome_for_def failed_line_def)
qed

lemma summary_counts:
  "length rs = length fs \<Longrightarrow>
   length (filter success rs) = length (succeeded_items rs fs)
   \<and> length (filter (\<lambda>r. \<not> success r) rs) = length (failed_items rs fs)"
proof (induction rs fs rule: list_induct2)
  case Nil
  then show ?case by (simp add: succeeded_items_def failed_items_def)
next
  case (Cons r rs f fs)
  then show ?case by (auto simp: succeeded_items_def failed_items_def)
qed

lemma report_results_mail:
  assumes "\<not> falsy (env_get ext ''EMAIL_HOST'')"
  shows "map mail_text (mail_log (snd (report_results ext (rs, w))))
     = map mail_text (mail_log w)
       @ [report_body ext (getFolderStats w) (filter success rs) (filter (\<lambda>r. \<not> success r) rs)]"
  using assms
  by (auto simp: report_results_def sendBatchEmail_def sendEmail_def console_log_def
      split: option.splits)

lemma partial_sel:
  "http_get partial_ext n (secureUrl demo_file1) = Inr (PString (js ''prompt''))"
  "http_get partial_ext n (secureUrl demo_file3)
     = Inl \<lparr>message = js ''Request failed with status code 404'', response_status = Some 404\<rparr>"
  "generateContent partial_ext = generateContent demo_ext"
  "writeFile partial_ext = writeFile demo_ext"
  "http_put partial_ext = http_put demo_ext"
  "date_now partial_ext = date_now demo_ext"
  "dateTimeStr partial_ext = dateTimeStr demo_ext"
  "apiKeys partial_ext = apiKeys demo_ext"
  "env_get partial_ext = env_get demo_ext"
  "GEMINI_MODEL partial_ext = GEMINI_MODEL demo_ext"
  using demo_urls demo_urls3
  by (simp_all add: partial_ext_def apiKeys_def env_get_def GEMINI_MODEL_def fun_eq_iff
      demo_file1_def demo_file3_def)

lemma host_demo: "env_get demo_ext ''EMAIL_HOST'' = Some (js ''smtp.example.org'')"
  by (simp add: env_get_def demo_ext_def)

lemma ev_partial:
  "fst (runQueue_with 3 partial_ext [demo_file1, demo_file3] (\<lambda>t. 0) stale_world)
     = [\<lparr>success = True, name = js ''first-post.mdx'', error = None\<rparr>,
        \<lparr>success = False, name = js ''notes_v2.md'',
         error = Some (js ''Request failed with status code 404'')\<rparr>]
   \<and> dir_files (snd (runQueue_with 3 partial_ext [demo_file1, demo_file3] (\<lambda>t. 0) stale_world))
       = [(js ''first-post.mdx'', js ''generated'')]
   \<and> dir_exists (snd (runQueue_with 3 partial_ext [demo_file1, demo_file3] (\<lambda>t. 0) stale_world))"
  by (simp add: queue_eval GEMINI_MODEL_demo partial_sel demo_sel
      demo_file1_sel demo_file3_sel slug_first_post slug_notes apiKeys_demo_ext
      stale_world_def initial_world_def)

lemma js_append: "js (a @ b) = js a @ js b"
  by (simp add: js_def)

lemma show_nat_digits: "show_nat (Suc 0) = js ''1''" "show_nat (Suc (Suc 0)) = js ''2''"
  by (simp_all add: js_def)

lemma join_single: "xs = [] \<Longrightarrow> join sep (x # xs) = x"
  by simp

text \<open>
  C10: the outcome that \<open>processFile\<close> returns for a file record carries the generated
  file name, with the extension \<open>.mdx\<close>, when \<open>success\<close> is true, and the original file
  name with an error message when \<open>success\<close> is false. So do the outcomes of a batch:
  they belong, position by position, to a rearrangement \<open>fs\<close> of the items. The report
  that \<open>run\<close> mails for the batch (when \<open>EMAIL_HOST\<close> is set) lists under
  \<open>Successful Files\<close> one line \<open>- name\<close> with the generated file name for every item that
  succeeded, and under \<open>Failed Files\<close> one line \<open>- name (message)\<close> with the original
  file name for every item that failed.
\<close>

theorem batch_summary_names:
  assumes "0 < n" and "\<not> falsy (env_get ext ''EMAIL_HOST'')"
  shows "outcome_for (fst (processFile ext file m w)) file
   \<and> (\<exists>fs. mset fs = mset files
        \<and> list_all2 outcome_for (fst (runQueue_with n ext files sched w)) fs
        \<and> map mail_text (mail_log (snd (report_results ext (runQueue_with n ext files sched w))))
            = map mail_text (mail_log w) @
              [join NL
                [[],
                 js ''Multi-Key Content Generation Report'',
                 js ''----------------------------------'',
                 js ''Date & Time (BDT): '' @ dateTimeStr ext,
                 js ''Total Processed: '' @ show_nat (length files),
                 js ''Success: ''
                   @ show_nat (length (succeeded_items (fst (runQueue_with n ext files sched w)) fs)),
                 js ''Failed: ''
                   @ show_nat (length (failed_items (fst (runQueue_with n ext files sched w)) fs)),
                 [],
                 js ''Successful Files:'',
                 join NL (map (\<lambda>f. js ''- '' @ generateSafeFilename (originalFilename f))
                            (succeeded_items (fst (runQueue_with n ext files sched w)) fs)),
                 [],
                 js ''Failed Files:'',
                 join NL (map (\<lambda>(f, msg). js ''- '' @ originalFilename f @ js '' ('' @ msg @ js '')'')
                            (failed_items (fst (runQueue_with n ext files sched w)) fs)),
                 [],
                 js ''Folder Stats:'',
                 js ''- Total files in folder: ''
                   @ show_nat (fst (getFolderStats (snd (runQueue_with n ext files sched w)))),
                 js ''- Total MDX files: ''
                   @ show_nat (snd (getFolderStats (snd (runQueue_with n ext files sched w)))),
                 [],
                 js ''Generated content has been saved to the repository.'',
                 []]])"
proof -
  let ?rs = "fst (runQueue_with n ext files sched w)" and ?w = "snd (runQueue_with n ext files sched w)"
  from runQueue_with_outcomes[OF assms(1), of files ext sched w]
  obtain order where o: "mset order = mset [0..<length files]"
    "list_all2 (\<lambda>r i. outcome_for r (files ! i)) ?rs order"
    "mail_log ?w = mail_log w"
    by blast
  let ?fs = "map ((!) files) order"
  from outcomes_of_items[OF o(1) o(2)]
  have p: "mset ?fs = mset files" "list_all2 outcome_for ?rs ?fs" "length ?rs = length files"
    by simp_all
  have l: "length ?rs = length ?fs" using p(2) by (rule list_all2_lengthD)
  note s = summary_lines[OF p(2)] and c = summary_counts[OF l]
  have t: "length (filter success ?rs) + length (filter (\<lambda>r. \<not> success r) ?rs) = length files"
    using sum_length_filter_compl[of success ?rs] p(3) by simp
  have n: "map (\<lambda>f. js ''- '' @ name f) (filter success ?rs)
             = map (\<lambda>f. js ''- '' @ generateSafeFilename (originalFilename f)) (succeeded_items ?rs ?fs)"
  proof -
    have "map (\<lambda>f. js ''- '' @ name f) (filter success ?rs)
            = map ((@) (js ''- '')) (map name (filter success ?rs))" by simp
    also have "\<dots> = map ((@) (js ''- ''))
                        (map (\<lambda>f. generateSafeFilename (originalFilename f)) (succeeded_items ?rs ?fs))"
      using s by simp
    finally show ?thesis by simp
  qed
  have b: "report_body ext (getFolderStats ?w) (filter success ?rs) (filter (\<lambda>r. \<not> success r) ?rs)
     = join NL
                [[],
                 js ''Multi-Key Content Generation Report'',
                 js ''----------------------------------'',
                 js ''Date & Time (BDT): '' @ dateTimeStr ext,
                 js ''Total Processed: '' @ show_nat (length files),
                 js ''Success: '' @ show_nat (length (succeeded_items ?rs ?fs)),
                 js ''Failed: '' @ show_nat (length (failed_items ?rs ?fs)),
                 [],
                 js ''Successful Files:'',
                 join NL (map (\<lambda>f. js ''- '' @ generateSafeFilename (originalFilename f))
                            (succeeded_items ?rs ?fs)),
                 [],
                 js ''Failed Files:'',
                 join NL (map (\<lambda>(f, msg). js ''- '' @ originalFilename f @ js '' ('' @ msg @ js '')'')
                            (failed_items ?rs ?fs)),
                 [],
                 js ''Folder Stats:'',
                 js ''- Total files in folder: '' @ show_nat (fst (getFolderStats ?w)),
                 js ''- Total MDX files: '' @ show_nat (snd (getFolderStats ?w)),
                 [],
                 js ''Generated content has been saved to the repository.'',
                 []]"
    unfolding report_body_def n t using s c by simp
  have m: "map mail_text (mail_log (snd (report_results ext (runQueue_with n ext files sched w))))
            = map mail_text (mail_log w)
              @ [report_body ext (getFolderStats ?w) (filter success ?rs) (filter (\<lambda>r. \<not> success r) ?rs)]"
    using report_results_mail[OF assms(2), of ?rs ?w] o(3) by simp
  show ?thesis
    using processFile_outcome_for[of ext "file" m w] p(1) p(2) m[unfolded b] by blast
qed

theorem batch_summary_names_witness:
  "0 < (3::nat)
   \<and> \<not> falsy (env_get partial_ext ''EMAIL_HOST'')
   \<and> fst (runQueue_with 3 partial_ext [demo_file1, demo_file3] (\<lambda>t. 0) stale_world)
       = [\<lparr>success = True, name = js ''first-post.mdx'', error = None\<rparr>,
          \<lparr>success = False, name = js ''notes_v2.md'',
           error = Some (js ''Request failed with status code 404'')\<rparr>]
   \<and> map mail_text (mail_log (snd (report_results partial_ext
          (runQueue_with 3 partial_ext [demo_file1, demo_file3] (\<lambda>t. 0) stale_world))))
       = [join NL
           [[],
            js ''Multi-Key Content Generation Report'',
            js ''----------------------------------'',
            js ''Date & Time (BDT): 11/3/2026, 9:00:00 AM'',
            js ''Total Processed: 2'',
            js ''Success: 1'',
            js ''Failed: 1'',
            [],
            js ''Successful Files:'',
            js ''- first-post.mdx'',
            [],
            js ''Failed Files:'',
            js ''- notes_v2.md (Request failed with status code 404)'',
            [],
            js ''Folder Stats:'',
            js ''- Total files in folder: 1'',
            js ''- Total MDX files: 1'',
            [],
            js ''Generated content has been saved to the repository.'',
            []]]"
proof -
  let ?q = "runQueue_with 3 partial_ext [demo_file1, demo_file3] (\<lambda>t. 0) stale_world"
  let ?r1 = "\<lparr>success = True, name = js ''first-post.mdx'', error = None\<rparr>"
  let ?r2 = "\<lparr>success = False, name = js ''notes_v2.md'',
              error = Some (js ''Request failed with status code 404'')\<rparr>"
  have h1: "0 < (3::nat)" by simp
  have h2: "\<not> falsy (env_get partial_ext ''EMAIL_HOST'')"
    by (simp add: partial_sel host_demo falsy_def)
  have rs: "fst ?q = [?r1, ?r2]" using ev_partial by simp
  have st: "getFolderStats (snd ?q) = (1, 1)"
    using ev_partial by (simp add: getFolderStats_def endsWith_def js_def)
  note A = batch_summary_names[OF h1 h2, of demo_file1 "js ''gemini-3-flash-preview''" stale_world
             "[demo_file1, demo_file3]" "\<lambda>t. 0"]
  then obtain fs where f: "mset fs = mset [demo_file1, demo_file3]"
     "list_all2 outcome_for [?r1, ?r2] fs"
     and m: "map mail_text (mail_log (snd (report_results partial_ext ?q)))
            = map mail_text (mail_log stale_world) @
              [join NL
                [[],
                 js ''Multi-Key Content Generation Report'',
                 js ''----------------------------------'',
                 js ''Date & Time (BDT): '' @ dateTimeStr partial_ext,
                 js ''Total Processed: '' @ show_nat (length [demo_file1, demo_file3]),
                 js ''Success: '' @ show_nat (length (succeeded_items [?r1, ?r2] fs)),
                 js ''Failed: '' @ show_nat (length (failed_items [?r1, ?r2] fs)),
                 [],
                 js ''Successful Files:'',
                 join NL (map (\<lambda>f. js ''- '' @ generateSafeFilename (originalFilename f))
                            (succeeded_items [?r1, ?r2] fs)),
                 [],
                 js ''Failed Files:'',
                 join NL (map (\<lambda>(f, msg). js ''- '' @ originalFilename f @ js '' ('' @ msg @ js '')'')
                            (failed_items [?r1, ?r2] fs)),
                 [],
                 js ''Folder Stats:'',
                 js ''- Total files in folder: '' @ show_nat (fst (1::nat, 1::nat)),
                 js ''- Total MDX files: '' @ show_nat (snd (1::nat, 1::nat)),
                 [],
                 js ''Generated content has been saved to the repository.'',
                 []]]"
    unfolding rs st by blast
  from f(2) obtain a b where ab: "fs = [a, b]" "outcome_for ?r1 a"
    by (auto simp: list_all2_Cons1)
  from f(1) ab(1) have "(a = demo_file1 \<and> b = demo_file3) \<or> (a = demo_file3 \<and> b = demo_file1)"
    by (auto simp: add_eq_conv_ex)
  moreover have "a \<noteq> demo_file3"
    using ab(2) by (auto simp: outcome_for_def demo_file3_sel slug_notes)
  ultimately have fs: "fs = [demo_file1, demo_file3]" using ab(1) by simp
  have si: "succeeded_items [?r1, ?r2] fs = [demo_file1]"
    "failed_items [?r1, ?r2] fs = [(demo_file3, js ''Request failed with status code 404'')]"
    unfolding fs by (simp_all add: succeeded_items_def failed_items_def)
  have ml: "mail_log stale_world = []" by (simp add: stale_world_def initial_world_def)
  have "map mail_text (mail_log (snd (report_results partial_ext ?q)))
       = [join NL
           [[],
            js ''Multi-Key Content Generation Report'',
            js ''----------------------------------'',
            js ''Date & Time (BDT): '' @ js ''11/3/2026, 9:00:00 AM'',
            js ''Total Processed: '' @ js ''2'',
            js ''Success: '' @ js ''1'',
            js ''Failed: '' @ js ''1'',
            [],
            js ''Successful Files:'',
            js ''- '' @ js ''first-post.mdx'',
            [],
            js ''Failed Files:'',
            js ''- '' @ js ''notes_v2.md'' @ js '' ('' @ js ''Request failed with status code 404'' @ js '')'',
            [],
            js ''Folder Stats:'',
            js ''- Total files in folder: '' @ js ''1'',
            js ''- Total MDX files: '' @ js ''1'',
            [],
            js ''Generated content has been saved to the repository.'',
            []]]"
    unfolding m si ml
    by (simp add: partial_sel demo_sel demo_file1_sel demo_file3_sel slug_first_post
        show_nat_digits join_single del: show_nat.simps join.simps)
  then have "map mail_text (mail_log (snd (report_results partial_ext ?q)))
       = [join NL
           [[],
            js ''Multi-Key Content Generation Report'',
            js ''----------------------------------'',
            js ''Date & Time (BDT): 11/3/2026, 9:00:00 AM'',
            js ''Total Processed: 2'',
            js ''Success: 1'',
            js ''Failed: 1'',
            [],
            js ''Successful Files:'',
            js ''- first-post.mdx'',
            [],
            js ''Failed Files:'',
            js ''- notes_v2.md (Request failed with status code 404)'',
            [],
            js ''Folder Stats:'',
            js ''- Total files in folder: 1'',
            js ''- Total MDX files: 1'',
            [],
            js ''Generated content has been saved to the repository.'',
            []]]"
    by (simp only: js_append[symmetric] append.simps)
  with h1 h2 rs show ?thesis by blast
qed

section \<open>Properties of the main run\<close>

lemma runQueue_mail_log: "mail_log (snd (runQueue ext files sched w)) = mail_log w"
proof -
  have "0 < CONCURRENCY_LIMIT" by (simp add: CONCURRENCY_LIMIT_def)
  from runQueue_with_outcomes[OF this, of files ext sched w]
  show ?thesis by (auto simp: runQueue_def)
qed

lemma apiKeys_no_keys: "apiKeys no_keys_ext = []"
  by (simp add: apiKeys_def no_keys_ext_def startsWith_def falsy_def js_def)

lemma idle_sel:
  "http_get idle_ext n url = Inr (PFiles [demo_file2])"
  by (simp add: idle_ext_def)

lemma run_mail_rejected:
  assumes host: "\<not> falsy (env_get ext ''EMAIL_HOST'')"
    and get: "http_get ext (length (get_log w)) EXTERNAL_API_URL = Inr (PFiles allFiles)"
    and pending: "filter (\<lambda>f. status f = js ''Pending'') allFiles \<noteq> []"
    and mail: "\<forall>n ml. sendMail ext n ml = Some e"
  shows "fst (run ext sched w) = Uncaught e"
proof -
  have se: "fst (sendEmail ext subject body w') = Some e" for subject body w'
    using host mail by (simp add: sendEmail_def)
  have rr: "fst (report_results ext rw) = Some e" for rw
  proof -
    let ?s = "filter success (fst rw)" and ?f = "filter (\<lambda>r. \<not> success r) (fst rw)"
    obtain r w' where m: "sendEmail ext (report_subject ext ?s ?f)
                            (report_body ext (getFolderStats (snd rw)) ?s ?f) (snd rw) = (r, w')"
      by (metis surj_pair)
    then have "r = Some e"
      using se[of "report_subject ext ?s ?f" "report_body ext (getFolderStats (snd rw)) ?s ?f" "snd rw"]
      by simp
    with m show ?thesis by (simp add: report_results_def sendBatchEmail_def)
  qed
  have bs: "take BATCH_SIZE (filter (\<lambda>f. status f = js ''Pending'') allFiles) \<noteq> []"
    using pending by (simp add: BATCH_SIZE_def)
  have rt: "fst (run_try ext sched (console_log Starting w)) = Some e"
    using get bs rr by (simp add: run_try_def axios_get_def run_batch_def console_log_def)
  have rc: "fst (run_catch ext e w') = Uncaught e" for w'
  proof -
    obtain r w'' where m: "sendEmail ext (js ''Batch Failed'') (message e)
                             (console_log (FatalError (message e)) w') = (r, w'')"
      by (metis surj_pair)
    then have "r = Some e"
      using se[of "js ''Batch Failed''" "message e" "console_log (FatalError (message e)) w'"] by simp
    with m show ?thesis by (simp add: run_catch_def)
  qed
  obtain r1 w1 where t: "run_try ext sched (console_log Starting w) = (r1, w1)" by (metis surj_pair)
  then have "r1 = Some e" using rt by simp
  with t rc show ?thesis by (simp add: run_def)
qed

text \<open>
  The exit code of a run with a batch to process, when the report is the first mail of
  the process: 0 when the transport takes it, 1 when the transport refuses it and takes
  the mail about the fatal error.
\<close>

lemma run_with_batch:
  assumes host: "\<not> falsy (env_get ext ''EMAIL_HOST'')"
    and get: "http_get ext (length (get_log w)) EXTERNAL_API_URL = Inr (PFiles allFiles)"
    and pending: "filter (\<lambda>f. status f = js ''Pending'') allFiles \<noteq> []"
    and first: "mail_log w = []"
  shows "(\<forall>ml. sendMail ext 0 ml = None) \<Longrightarrow> fst (run ext sched w) = ExitCode 0"
    and "(\<forall>ml. sendMail ext 0 ml = Some e) \<Longrightarrow> (\<forall>ml. sendMail ext (Suc 0) ml = None)
           \<Longrightarrow> fst (run ext sched w) = ExitCode 1"
proof -
  let ?files = "take BATCH_SIZE (filter (\<lambda>f. status f = js ''Pending'') allFiles)"
  let ?w1 = "console_log (FoundFiles (length ?files))
               ((console_log Starting w)\<lparr>get_log := get_log (console_log Starting w) @ [EXTERNAL_API_URL]\<rparr>)"
  let ?q = "runQueue ext ?files sched ?w1"
  have bs: "?files \<noteq> []" using pending by (simp add: BATCH_SIZE_def)
  have rt: "run_try ext sched (console_log Starting w) = report_results ext ?q"
    using get bs by (simp add: run_try_def axios_get_def run_batch_def console_log_def)
  have ml: "mail_log (snd ?q) = []"
    using runQueue_mail_log[of ext ?files sched ?w1] first by (simp add: console_log_def)
  {
    assume ok: "\<forall>ml. sendMail ext 0 ml = None"
    have "fst (report_results ext ?q) = None"
      using host ok ml
      by (simp add: report_results_def sendBatchEmail_def sendEmail_def)
    then have "fst (run_try ext sched (console_log Starting w)) = None" using rt by simp
    then show "fst (run ext sched w) = ExitCode 0"
      by (cases "run_try ext sched (console_log Starting w)") (simp add: run_def)
  next
    assume no: "\<forall>ml. sendMail ext 0 ml = Some e" and ok: "\<forall>ml. sendMail ext (Suc 0) ml = None"
    obtain r w' where rr: "report_results ext ?q = (r, w')" by (metis surj_pair)
    have "r = Some e \<and> length (mail_log w') = 1"
      using rr host no ml
      by (auto simp: report_results_def sendBatchEmail_def sendEmail_def)
    then have r: "r = Some e" and l: "length (mail_log w') = Suc 0" by simp_all
    have "fst (run_catch ext e w') = ExitCode 1"
      using host ok l by (simp add: run_catch_def sendEmail_def console_log_def)
    then show "fst (run ext sched w) = ExitCode 1"
      using rt rr r by (simp add: run_def)
  }
qed

lemma mail_once_sel:
  "http_get mail_fail_once_ext = http_get demo_ext"
  "process_env mail_fail_once_ext = process_env demo_ext"
  "sendMail mail_fail_once_ext n ml = (if n = 0 then Some \<lparr>message = js ''Invalid login'', response_status = None\<rparr> else None)"
  by (simp_all add: mail_fail_once_ext_def)

lemma mail_fail_sel:
  "http_get mail_fail_ext = http_get demo_ext"
  "process_env mail_fail_ext = process_env demo_ext"
  "sendMail mail_fail_ext n ml = Some \<lparr>message = js ''Invalid login'', response_status = None\<rparr>"
  by (simp_all add: mail_fail_ext_def)

lemma demo_pending: "filter (\<lambda>f. status f = js ''Pending'') demo_files \<noteq> []"
  by (simp add: demo_files_def demo_file1_def)

lemma ev_mail_once:
  "fst (program mail_fail_once_ext (\<lambda>t. 0) initial_world) = ExitCode 1"
proof -
  let ?w = "console_log (LoadedKeys (length (apiKeys mail_fail_once_ext)))
              (initial_world\<lparr>dir_exists := True\<rparr>)"
  have k: "apiKeys mail_fail_once_ext \<noteq> []"
    using apiKeys_demo_ext by (simp add: apiKeys_def mail_once_sel)
  have h: "\<not> falsy (env_get mail_fail_once_ext ''EMAIL_HOST'')"
    by (simp add: env_get_def mail_once_sel demo_ext_def falsy_def)
  have g: "http_get mail_fail_once_ext (length (get_log ?w)) EXTERNAL_API_URL = Inr (PFiles demo_files)"
    by (simp add: mail_once_sel demo_sel)
  have f: "mail_log ?w = []" by (simp add: console_log_def initial_world_def)
  have "fst (run mail_fail_once_ext (\<lambda>t. 0) ?w) = ExitCode 1"
    by (rule run_with_batch(2)[OF h g demo_pending f]) (simp_all add: mail_once_sel)
  with k show ?thesis by (simp add: program_def)
qed

lemma ev_mail_fail:
  "fst (program mail_fail_ext sched initial_world)
     = Uncaught \<lparr>message = js ''Invalid login'', response_status = None\<rparr>"
proof -
  have k: "apiKeys mail_fail_ext \<noteq> []"
    using apiKeys_demo_ext by (simp add: apiKeys_def mail_fail_sel)
  have h: "\<not> falsy (env_get mail_fail_ext ''EMAIL_HOST'')"
    by (simp add: env_get_def mail_fail_sel demo_ext_def falsy_def)
  have g: "http_get mail_fail_ext (length (get_log w)) EXTERNAL_API_URL = Inr (PFiles demo_files)" for w :: world
    by (simp add: mail_fail_sel demo_sel)
  have m: "\<forall>n ml. sendMail mail_fail_ext n ml
             = Some \<lparr>message = js ''Invalid login'', response_status = None\<rparr>"
    by (simp add: mail_fail_sel)
  show ?thesis
    using k run_mail_rejected[OF h g demo_pending m] by (simp add: program_def)
qed

lemma ev_demo:
  "fst (program demo_ext (\<lambda>t. 0) initial_world) = ExitCode 0"
proof -
  let ?w = "console_log (LoadedKeys (length (apiKeys demo_ext))) (initial_world\<lparr>dir_exists := True\<rparr>)"
  have k: "apiKeys demo_ext \<noteq> []" by (simp add: apiKeys_demo_ext)
  have h: "\<not> falsy (env_get demo_ext ''EMAIL_HOST'')" by (simp add: host_demo falsy_def)
  have g: "http_get demo_ext (length (get_log ?w)) EXTERNAL_API_URL = Inr (PFiles demo_files)"
    by (simp add: demo_sel)
  have f: "mail_log ?w = []" by (simp add: console_log_def initial_world_def)
  have "fst (run demo_ext (\<lambda>t. 0) ?w) = ExitCode 0"
    by (rule run_with_batch(1)[OF h g demo_pending f]) (simp add: demo_sel)
  with k show ?thesis by (simp add: program_def)
qed

text \<open>
  C7: when the list of credentials built at start-up is empty, the module throws its
  configuration error before \<open>run\<close> is called: nothing has been requested from any
  collaborator, no item has been processed and nothing has been printed; only the output
  directory has been created.
\<close>

theorem program_without_credentials:
  assumes "apiKeys ext = []"
  shows "fst (program ext sched w) = Uncaught (Error ''No GEMINI_API_KEY variables found.'')
   \<and> snd (program ext sched w) = w\<lparr>dir_exists := True\<rparr>
   \<and> get_log (snd (program ext sched w)) = get_log w
   \<and> gen_log (snd (program ext sched w)) = gen_log w
   \<and> write_log (snd (program ext sched w)) = write_log w
   \<and> put_log (snd (program ext sched w)) = put_log w
   \<and> mail_log (snd (program ext sched w)) = mail_log w
   \<and> console (snd (program ext sched w)) = console w"
  using assms by (simp add: program_def)

theorem program_without_credentials_witness:
  "apiKeys no_keys_ext = []
   \<and> fst (program no_keys_ext (\<lambda>t. 0) initial_world)
       = Uncaught (Error ''No GEMINI_API_KEY variables found.'')
   \<and> get_log (snd (program no_keys_ext (\<lambda>t. 0) initial_world)) = []
   \<and> gen_log (snd (program no_keys_ext (\<lambda>t. 0) initial_world)) = []"
proof -
  note h = apiKeys_no_keys
  from program_without_credentials[OF h, of "\<lambda>t. 0" initial_world] h
  show ?thesis by (simp add: initial_world_def)
qed

text \<open>
  C9: when no fetched file record is pending, \<open>run\<close> ends with exit code 0 after the one
  request that fetched the records: no generation call, no file written, no status update,
  no mail.
\<close>

theorem run_no_pending:
  assumes "http_get ext (length (get_log w)) EXTERNAL_API_URL = Inr (PFiles allFiles)"
    and "filter (\<lambda>f. status f = js ''Pending'') allFiles = []"
  shows "fst (run ext sched w) = ExitCode 0
   \<and> gen_log (snd (run ext sched w)) = gen_log w
   \<and> write_log (snd (run ext sched w)) = write_log w
   \<and> dir_files (snd (run ext sched w)) = dir_files w
   \<and> put_log (snd (run ext sched w)) = put_log w
   \<and> mail_log (snd (run ext sched w)) = mail_log w
   \<and> get_log (snd (run ext sched w)) = get_log w @ [EXTERNAL_API_URL]
   \<and> console (snd (run ext sched w)) = console w @ [Starting, NoPendingFiles]
   \<and> (apiKeys ext \<noteq> [] \<longrightarrow> fst (program ext sched w) = ExitCode 0)"
proof -
  have g: "http_get ext (length (get_log (console_log l w'))) = http_get ext (length (get_log w'))" for l w'
    by (simp add: console_log_def)
  have r: "run ext sched w' =
        (ExitCode 0, console_log NoPendingFiles
            ((console_log Starting w')\<lparr>get_log := get_log (console_log Starting w') @ [EXTERNAL_API_URL]\<rparr>))"
    if "get_log w' = get_log w" for w'
    using assms that
    by (simp add: run_def run_try_def axios_get_def run_batch_def console_log_def)
  show ?thesis
    using r[of w] r[of "console_log (LoadedKeys (length (apiKeys ext))) (w\<lparr>dir_exists := True\<rparr>)"]
    by (simp add: console_log_def program_def)
qed

theorem run_no_pending_witness:
  "http_get idle_ext (length (get_log initial_world)) EXTERNAL_API_URL = Inr (PFiles [demo_file2])
   \<and> filter (\<lambda>f. status f = js ''Pending'') [demo_file2] = []
   \<and> fst (run idle_ext (\<lambda>t. 0) initial_world) = ExitCode 0
   \<and> gen_log (snd (run idle_ext (\<lambda>t. 0) initial_world)) = []
   \<and> mail_log (snd (run idle_ext (\<lambda>t. 0) initial_world)) = []
   \<and> dir_files (snd (run idle_ext (\<lambda>t. 0) initial_world)) = []
   \<and> put_log (snd (run idle_ext (\<lambda>t. 0) initial_world)) = []"
proof -
  have h1: "http_get idle_ext (length (get_log initial_world)) EXTERNAL_API_URL = Inr (PFiles [demo_file2])"
    by (rule idle_sel)
  have h2: "filter (\<lambda>f. status f = js ''Pending'') [demo_file2] = []"
    by (simp add: demo_file2_def)
  from run_no_pending[OF h1 h2, of "\<lambda>t. 0"] h1 h2
  show ?thesis by (simp add: initial_world_def)
qed

text \<open>
  C6 against the code: \<open>sendEmail\<close> awaits \<open>transporter.sendMail\<close> without a
  \<open>try\<close>, so a failing report mail is thrown into the \<open>catch\<close> block of \<open>run\<close> as a
  fatal error. On the sample batch, which exits with code 0 when the mail goes through,
  a transport that refuses every mail ends the process with an unhandled rejection, and a
  transport that refuses only the report ends it with exit code 1.
\<close>

theorem run_mail_failure_is_fatal:
  "fst (program demo_ext (\<lambda>t. 0) initial_world) = ExitCode 0
   \<and> fst (program mail_fail_ext (\<lambda>t. 0) initial_world)
       = Uncaught \<lparr>message = js ''Invalid login'', response_status = None\<rparr>
   \<and> fst (program mail_fail_once_ext (\<lambda>t. 0) initial_world) = ExitCode 1"
  using ev_demo ev_mail_fail ev_mail_once by simp

end
